theory Spec2Isabelle
  imports Complex_Main "HOL-Library.Word" "HOL-Library.AList"
begin

section \<open>JavaScript values\<close>

text \<open>
  A JavaScript string is a sequence of UTF-16 code units, and \<open>.length\<close> counts
  code units. String literals of the source are written \<open>js ''...''\<close>; the two
  non-ASCII literals of the source, the ellipsis of \<open>elide\<close> (U+2026) and the
  bullet of \<open>setTitle\<close> (U+2022), are single code units.

  Numbers of the treemap data (byte counts, milliseconds, sums of character codes) are
  modelled as integers: the model covers the integers a double represents exactly
  (magnitude up to \<open>2^53\<close>), which is where JavaScript's arithmetic on them is
  integer arithmetic. \<open>undefined\<close> is \<open>None\<close> of an option type.
\<close>

type_synonym jsstring = "16 word list"

definition js :: "string \<Rightarrow> jsstring" where
  "js s = map of_char s"

definition ellipsis :: "16 word" where
  "ellipsis = 0x2026"

definition bullet :: "16 word" where
  "bullet = 0x2022"

text \<open>Decimal digits of a natural number.\<close>

fun decimal :: "nat \<Rightarrow> jsstring" where
  "decimal n =
     (if n < 10 then [of_nat (48 + n)]
      else decimal (n div 10) @ [of_nat (48 + n mod 10)])"

declare decimal.simps [simp del]

text \<open>\<open>String(n)\<close> and \<open>`${n}`\<close> for an integer \<open>n\<close> (below \<open>10^21\<close> in
  magnitude, where JavaScript prints all digits).\<close>

definition toString :: "int \<Rightarrow> jsstring" where
  "toString n = (if n < 0 then js ''-'' @ decimal (nat (- n)) else decimal (nat n))"

text \<open>The same conversion for a value that may be \<open>undefined\<close>.\<close>

definition toStringU :: "int option \<Rightarrow> jsstring" where
  "toStringU v = (case v of None \<Rightarrow> js ''undefined'' | Some n \<Rightarrow> toString n)"

text \<open>\<open>s.slice(start, end)\<close>: a negative index counts from the end, and both
  indices are clamped to the string.\<close>

definition slice :: "jsstring \<Rightarrow> int \<Rightarrow> int \<Rightarrow> jsstring" where
  "slice s start end =
     (let len = int (length s);
          from = (if start < 0 then max (len + start) 0 else min start len);
          to = (if end < 0 then max (len + end) 0 else min end len)
      in take (nat (to - from)) (drop (nat from) s))"

text \<open>\<open>x.toFixed(f)\<close> for a finite \<open>x\<close> below \<open>10^21\<close> in magnitude, after
  ECMAScript's Number.prototype.toFixed: \<open>n\<close> is the integer nearest to
  \<open>x * 10^f\<close>, the larger one of two; its digits are padded with zeros to
  \<open>f + 1\<close> places and the point is set before the last \<open>f\<close>.\<close>

definition toFixed :: "rat \<Rightarrow> nat \<Rightarrow> jsstring" where
  "toFixed x f =
     (let s = (if x < 0 then js ''-'' else []);
          n = nat \<lfloor>\<bar>x\<bar> * 10 ^ f + 1 / 2\<rfloor>;
          m = decimal n
      in if f = 0 then s @ m
         else (let m' = (if length m \<le> f then replicate (f + 1 - length m) 48 @ m else m);
                   k = length m'
               in s @ take (k - f) m' @ js ''.'' @ drop (k - f) m'))"

section \<open>Util\<close>

definition KB :: int where
  "KB = 1024"

definition MB :: int where
  "MB = KB * KB"

definition elide :: "jsstring \<Rightarrow> int \<Rightarrow> jsstring" where
  "elide string len =
     (if int (length string) \<le> len then string
      else slice string 0 len @ [ellipsis])"

definition formatBytes :: "int \<Rightarrow> jsstring" where
  "formatBytes bytes =
     (if bytes \<ge> MB then toFixed (of_int bytes / of_int MB) 2 @ js '' MB''
      else if bytes \<ge> KB then toFixed (of_int bytes / of_int KB) 0 @ js '' KB''
      else toString bytes @ js '' B'')"

text \<open>\<open>format(value, unit)\<close>. An \<open>undefined\<close> value fails both comparisons of
  \<open>formatBytes\<close> and is printed by its last line.\<close>

definition format :: "int option \<Rightarrow> jsstring \<Rightarrow> jsstring" where
  "format v unit =
     (if unit = js ''bytes'' then
        (case v of Some n \<Rightarrow> formatBytes n | None \<Rightarrow> toStringU None @ js '' B'')
      else if unit = js ''time'' then toStringU v @ js '' ms''
      else toStringU v @ js '' '' @ unit)"

text \<open>\<open>precedence.indexOf(x)\<close>: the first index holding \<open>x\<close>, or \<open>-1\<close>.\<close>

fun indexOf :: "'a list \<Rightarrow> 'a \<Rightarrow> int" where
  "indexOf [] x = - 1"
| "indexOf (y # ys) x =
     (if y = x then 0
      else (let i = indexOf ys x in if i = - 1 then - 1 else i + 1))"

text \<open>\<open>sortByPrecedence\<close>. The collation \<open>localeCompare\<close> belongs to the host
  (it depends on the locale) and \<open>String\<close> on the element type, so both are
  parameters.\<close>

definition sortByPrecedence ::
  "(jsstring \<Rightarrow> jsstring \<Rightarrow> int) \<Rightarrow> ('a \<Rightarrow> jsstring) \<Rightarrow> 'a list \<Rightarrow> 'a \<Rightarrow> 'a \<Rightarrow> int" where
  "sortByPrecedence localeCompare String precedence a b =
     (let aIndex = indexOf precedence a;
          bIndex = indexOf precedence b
      in if aIndex = - 1 \<and> bIndex = - 1 then localeCompare (String a) (String b)
         else if aIndex = - 1 \<and> bIndex \<ge> 0 then 1
         else if bIndex = - 1 \<and> aIndex \<ge> 0 then - 1
         else aIndex - bIndex)"

text \<open>A collation by code units. It stands in for the host's \<open>localeCompare\<close>
  where a closed example has to name one.\<close>

fun ordinalCompare :: "jsstring \<Rightarrow> jsstring \<Rightarrow> int" where
  "ordinalCompare [] [] = 0"
| "ordinalCompare [] (y # ys) = - 1"
| "ordinalCompare (x # xs) [] = 1"
| "ordinalCompare (x # xs) (y # ys) =
     (if x < y then - 1 else if y < x then 1 else ordinalCompare xs ys)"

subsection \<open>stableHasher\<close>

text \<open>
  The closure returned by \<open>stableHasher\<close> owns two mutable variables: its copy of
  \<open>items\<close> and the object \<open>assignedItems\<close>. They are the fields of the closure's
  state; \<open>stableHasher\<close> builds the initial state and \<open>assign\<close> is one call of the
  closure, returning the result (\<open>None\<close> is \<open>null\<close>) and the state it leaves.

  A hash is an integer or \<open>undefined\<close> (\<open>updateColors\<close> passes \<open>node.idHash\<close>,
  which the synthetic root of a group view does not have). Property names of
  \<open>assignedItems\<close> are the hashes printed as strings, which differ for different
  hashes, so the object is an association list keyed by the hash itself.
\<close>

record 'a hasher =
  items :: "'a list"
  assignedItems :: "(int option \<times> 'a) list"

definition stableHasher :: "'a list \<Rightarrow> 'a hasher" where
  "stableHasher pool = \<lparr>items = pool, assignedItems = []\<rparr>"

text \<open>\<open>hash % n\<close>: the remainder takes the sign of the dividend; it is \<open>NaN\<close>
  (\<open>None\<close>) for an \<open>undefined\<close> hash and for \<open>n = 0\<close>.\<close>

definition remainder :: "int option \<Rightarrow> nat \<Rightarrow> int option" where
  "remainder hash n =
     (case hash of
        None \<Rightarrow> None
      | Some h \<Rightarrow>
          if n = 0 then None
          else Some (if h < 0 then - ((- h) mod int n) else h mod int n))"

text \<open>The start index of \<open>splice(start, 1)\<close> on an array of \<open>len\<close> elements:
  \<open>NaN\<close> is \<open>0\<close>, a negative start counts from the end.\<close>

definition spliceStart :: "int option \<Rightarrow> nat \<Rightarrow> nat" where
  "spliceStart start len =
     (case start of
        None \<Rightarrow> 0
      | Some r \<Rightarrow> if r < 0 then nat (max (int len + r) 0) else min (nat r) len)"

text \<open>\<open>items.splice(start, 1)\<close>: the removed elements and the array left.\<close>

definition splice1 :: "'a list \<Rightarrow> int option \<Rightarrow> 'a list \<times> 'a list" where
  "splice1 xs start =
     (let i = spliceStart start (length xs)
      in (take 1 (drop i xs), take i xs @ drop (i + 1) xs))"

text \<open>One call of the closure. The pattern \<open>[assignedColor]\<close> takes the first removed
  element; \<open>splice\<close> removes one whenever the array is not empty
  (lemma \<open>splice1_removes\<close>), so the last case does not arise.\<close>

definition assign :: "'a hasher \<Rightarrow> int option \<Rightarrow> 'a option \<times> 'a hasher" where
  "assign s hash =
     (case map_of (assignedItems s) hash of
        Some v \<Rightarrow> (Some v, s)
      | None \<Rightarrow>
          if length (items s) = 0 then (None, s)
          else (case splice1 (items s) (remainder hash (length (items s))) of
                  (assignedColor # _, rest) \<Rightarrow>
                    (Some assignedColor,
                     \<lparr>items = rest,
                      assignedItems = AList.update hash assignedColor (assignedItems s)\<rparr>)
                | ([], rest) \<Rightarrow> (None, s\<lparr>items := rest\<rparr>)))"

text \<open>The state after a sequence of calls.\<close>

fun calls :: "'a hasher \<Rightarrow> int option list \<Rightarrow> 'a hasher" where
  "calls s [] = s"
| "calls s (h # hs) = calls (snd (assign s h)) hs"

text \<open>Bookkeeping for the proofs about \<open>assign\<close>: \<open>ps\<close> lists the positions
  of the pool that are still in \<open>items\<close>, in order, and \<open>pos\<close> gives each assigned
  hash the position of the pool its item was taken from.\<close>

definition slots :: "'a list \<Rightarrow> 'a hasher \<Rightarrow> nat list \<Rightarrow> (int option \<Rightarrow> nat) \<Rightarrow> bool" where
  "slots pool s ps pos \<longleftrightarrow>
     items s = map ((!) pool) ps \<and> distinct ps \<and> (\<forall>p\<in>set ps. p < length pool) \<and>
     distinct (map fst (assignedItems s)) \<and>
     inj_on pos (fst ` set (assignedItems s)) \<and>
     (\<forall>(h, x)\<in>set (assignedItems s). pos h < length pool \<and> pool ! pos h = x \<and> pos h \<notin> set ps) \<and>
     length ps + length (assignedItems s) = length pool"

subsection \<open>The formats of \<open>formatBytes\<close>, in the specification's words\<close>

text \<open>A number printed with two decimal places, and one printed with none: the nearest
  multiple of a hundredth (of one), the larger of two nearest.\<close>

definition digit :: "nat \<Rightarrow> 16 word" where "digit d = of_nat (48 + d)"

definition spec_two_decimals :: "rat \<Rightarrow> jsstring" where
  "spec_two_decimals x =
     (let h = nat \<lfloor>x * 100 + 1 / 2\<rfloor>
      in decimal (h div 100) @ js ''.'' @ [digit (h div 10 mod 10), digit (h mod 10)])"

definition spec_zero_decimals :: "rat \<Rightarrow> jsstring" where
  "spec_zero_decimals x = decimal (nat \<lfloor>x + 1 / 2\<rfloor>)"

section \<open>Treemap data\<close>

text \<open>
  A node of the treemap data is a JavaScript object; the program reads and assigns the
  properties below. \<open>id\<close> is the label (overwritten by \<open>setTitle\<close>);
  \<open>originalId\<close> and \<open>idHash\<close> are stamped by the constructor (the synthetic root of
  a group view has no \<open>idHash\<close>); \<open>size\<close> is set by \<open>show\<close>; \<open>dom\<close> is attached
  by the layout library, and \<open>updateColors\<close> assigns two properties of its style.
  \<open>children\<close> is absent (\<open>None\<close>) in a leaf; an array, even an empty one, is
  truthy in \<open>if (node.children)\<close>.
\<close>

datatype css = Keyword string | Hsl rat int int

record style =
  backgroundColor :: "css option"
  color :: "css option"

record node_fields =
  nodeId :: jsstring
  originalId :: jsstring
  idHash :: "int option"
  bytes :: int
  wastedBytes :: int
  executionTime :: "int option"
  duplicate :: bool
  nodeSize :: "int option"
  nodeDom :: "style option"

datatype node = Node (props: node_fields) (children: "node list option")

record rootNode =
  rootId :: jsstring
  rootNode_node :: node

type_synonym treemapData = "(jsstring \<times> rootNode list) list"

section \<open>dfs\<close>

text \<open>
  \<open>dfs(node, fn, fullId)\<close>. The callbacks of this program assign properties of the
  node they are called on (never its \<open>children\<close>) and variables of the enclosing
  function. So a callback is a function from the variables' state \<open>s\<close>, the node and the
  path to the node's new properties and the new state, and \<open>dfs\<close> returns the tree and
  the state it leaves.
\<close>

fun dfs :: "('s \<Rightarrow> node \<Rightarrow> jsstring \<Rightarrow> node_fields \<times> 's) \<Rightarrow> node \<Rightarrow> jsstring \<Rightarrow> 's \<Rightarrow> node \<times> 's"
  and dfs_children ::
    "('s \<Rightarrow> node \<Rightarrow> jsstring \<Rightarrow> node_fields \<times> 's) \<Rightarrow> node list \<Rightarrow> jsstring \<Rightarrow> 's \<Rightarrow> node list \<times> 's"
where
  "dfs fn (Node f cs) fullId s =
     (let fullId' = (if fullId \<noteq> [] then fullId @ js ''/'' @ nodeId f else nodeId f);
          (f', s') = fn s (Node f cs) fullId'
      in case cs of
           None \<Rightarrow> (Node f' None, s')
         | Some ch \<Rightarrow>
             (let (ch', s'') = dfs_children fn ch fullId' s' in (Node f' (Some ch'), s'')))"
| "dfs_children fn [] fullId s = ([], s)"
| "dfs_children fn (c # cs) fullId s =
     (let (c', s') = dfs fn c fullId s;
          (cs', s'') = dfs_children fn cs fullId s'
      in (c' # cs', s''))"

text \<open>The calls that \<open>dfs\<close> makes of its callback, in order: the node and the path
  of each call. This is \<open>dfs\<close> without the callback.\<close>

fun visits :: "node \<Rightarrow> jsstring \<Rightarrow> (node \<times> jsstring) list"
  and visits_children :: "node list \<Rightarrow> jsstring \<Rightarrow> (node \<times> jsstring) list"
where
  "visits (Node f cs) fullId =
     (let fullId' = (if fullId \<noteq> [] then fullId @ js ''/'' @ nodeId f else nodeId f)
      in (Node f cs, fullId') #
         (case cs of None \<Rightarrow> [] | Some ch \<Rightarrow> visits_children ch fullId'))"
| "visits_children [] fullId = []"
| "visits_children (c # cs) fullId = visits c fullId @ visits_children cs fullId"

text \<open>A callback that only appends its arguments to a log.\<close>

definition logVisit ::
  "(node \<times> jsstring) list \<Rightarrow> node \<Rightarrow> jsstring \<Rightarrow> node_fields \<times> (node \<times> jsstring) list" where
  "logVisit acc node fullId = (props node, acc @ [(node, fullId)])"

text \<open>The traversal in the specification's words: the nodes in pre-order, and for each
  node its ancestors' ids and its own joined with \<open>"/"\<close>.\<close>

fun join :: "jsstring list \<Rightarrow> jsstring" where
  "join [] = []"
| "join [x] = x"
| "join (x # y # ys) = x @ js ''/'' @ join (y # ys)"

fun preorder :: "node \<Rightarrow> node list"
  and preorder_children :: "node list \<Rightarrow> node list"
where
  "preorder (Node f cs) =
     Node f cs # (case cs of None \<Rightarrow> [] | Some ch \<Rightarrow> preorder_children ch)"
| "preorder_children [] = []"
| "preorder_children (c # cs) = preorder c @ preorder_children cs"

fun spec_paths :: "jsstring list \<Rightarrow> node \<Rightarrow> (node \<times> jsstring) list"
  and spec_paths_children :: "jsstring list \<Rightarrow> node list \<Rightarrow> (node \<times> jsstring) list"
where
  "spec_paths ancestors (Node f cs) =
     (Node f cs, join (ancestors @ [nodeId f])) #
     (case cs of None \<Rightarrow> [] | Some ch \<Rightarrow> spec_paths_children (ancestors @ [nodeId f]) ch)"
| "spec_paths_children ancestors [] = []"
| "spec_paths_children ancestors (c # cs) =
     spec_paths ancestors c @ spec_paths_children ancestors cs"

text \<open>One step of a callback on the state, as \<open>foldl\<close> applies it.\<close>

definition callback_step ::
  "('s \<Rightarrow> node \<Rightarrow> jsstring \<Rightarrow> node_fields \<times> 's) \<Rightarrow> 's \<Rightarrow> node \<times> jsstring \<Rightarrow> 's" where
  "callback_step fn s v = snd (fn s (fst v) (snd v))"

text \<open>A node as the treemap data supplies it: \<open>id\<close>, \<open>bytes\<close>, \<open>wastedBytes\<close> and
  \<open>children\<close>, with no \<open>executionTime\<close> and no \<open>duplicate\<close> flag, before the viewer adds
  its own properties.\<close>

definition dataNode :: "jsstring \<Rightarrow> int \<Rightarrow> int \<Rightarrow> node list option \<Rightarrow> node" where
  "dataNode i b w cs =
     Node \<lparr>nodeId = i, originalId = [], idHash = None, bytes = b, wastedBytes = w,
           executionTime = None, duplicate = False, nodeSize = None, nodeDom = None\<rparr> cs"

text \<open>A chain of three levels.\<close>

definition chain3 :: node where
  "chain3 =
     dataNode (js ''root'') 0 0
       (Some [dataNode (js ''child'') 0 0 (Some [dataNode (js ''grandchild'') 0 0 None])])"

text \<open>A root whose id is the empty string, with one child.\<close>

definition emptyRoot :: node where
  "emptyRoot = dataNode [] 0 0 (Some [dataNode (js ''c'') 0 0 None])"

section \<open>Modes and view modes\<close>

text \<open>\<open>partitionBy\<close> names the property of a node that sizes it; \<open>node[partitionBy]\<close>
  is \<open>undefined\<close> where a node has no \<open>executionTime\<close>.\<close>

datatype metric = Bytes | WastedBytes | ExecutionTime

definition metricName :: "metric \<Rightarrow> jsstring" where
  "metricName m =
     (case m of Bytes \<Rightarrow> js ''bytes'' | WastedBytes \<Rightarrow> js ''wastedBytes''
      | ExecutionTime \<Rightarrow> js ''executionTime'')"

definition metricValue :: "metric \<Rightarrow> node_fields \<Rightarrow> int option" where
  "metricValue m f =
     (case m of Bytes \<Rightarrow> Some (bytes f) | WastedBytes \<Rightarrow> Some (wastedBytes f)
      | ExecutionTime \<Rightarrow> executionTime f)"

record selector =
  selectorType :: jsstring
  selectorValue :: jsstring
  viewId :: "jsstring option"

record mode =
  selector :: selector
  partitionBy :: "metric option"
  highlightNodeIds :: "jsstring list option"

text \<open>The element \<open>makeViewMode\<close> appends to the panel: its text, whether it carries the
  class \<open>view-mode--active\<close>, and the mode its click handler passes to \<open>show\<close>
  (\<open>None\<close> where the handler does nothing).\<close>

record viewModeEl =
  innerText :: jsstring
  active :: bool
  onClick :: "mode option"

definition makeViewMode ::
  "mode \<Rightarrow> jsstring \<Rightarrow> jsstring \<Rightarrow> metric \<Rightarrow> jsstring list option \<Rightarrow> viewModeEl" where
  "makeViewMode currentMode vid name modePartitionBy modeHighlight =
     (let isCurrentView = (Some vid = viewId (selector currentMode));
          newMode = currentMode
            \<lparr>highlightNodeIds := modeHighlight,
             partitionBy := Some modePartitionBy,
             selector := (selector currentMode)\<lparr>viewId := Some vid\<rparr>\<rparr>
      in \<lparr>innerText = name, active = isCurrentView,
          onClick = (if isCurrentView then None else Some newMode)\<rparr>)"

text \<open>The callbacks of \<open>createViewModes\<close>. Their state is the pair of the local
  variables \<open>bytes\<close> and \<open>highlightNodeIds\<close>. The sum of the duplicate modules adds
  \<open>node.bytes / 2\<close>; its state counts the halves.\<close>

definition allVisit :: "int \<Rightarrow> node \<Rightarrow> jsstring \<Rightarrow> node_fields \<times> int" where
  "allVisit acc node fullId =
     (if children node \<noteq> None then (props node, acc)
      else (props node, acc + bytes (props node)))"

definition unusedVisit ::
  "int \<times> jsstring list \<Rightarrow> node \<Rightarrow> jsstring \<Rightarrow> node_fields \<times> (int \<times> jsstring list)" where
  "unusedVisit acc node fullId =
     (if children node \<noteq> None then (props node, acc)
      else if wastedBytes (props node) < 50 * 1024 then (props node, acc)
      else (props node,
            (fst acc + wastedBytes (props node), snd acc @ [nodeId (props node)])))"

definition largeVisit ::
  "int \<times> jsstring list \<Rightarrow> node \<Rightarrow> jsstring \<Rightarrow> node_fields \<times> (int \<times> jsstring list)" where
  "largeVisit acc node fullId =
     (if children node \<noteq> None then (props node, acc)
      else if bytes (props node) < 200 * 1024 then (props node, acc)
      else (props node, (fst acc + bytes (props node), snd acc @ [nodeId (props node)])))"

definition duplicateVisit ::
  "int \<times> jsstring list \<Rightarrow> node \<Rightarrow> jsstring \<Rightarrow> node_fields \<times> (int \<times> jsstring list)" where
  "duplicateVisit acc node fullId =
     (if children node \<noteq> None then (props node, acc)
      else if \<not> duplicate (props node) then (props node, acc)
      else (props node, (fst acc + bytes (props node), snd acc @ [nodeId (props node)])))"

text \<open>\<open>for (const rootNode of rootNodes) dfs(rootNode.node, fn)\<close>; with
  \<open>bundlesOnly\<close> the loop skips root nodes without children.\<close>

definition visitRoots ::
  "bool \<Rightarrow> ('s \<Rightarrow> node \<Rightarrow> jsstring \<Rightarrow> node_fields \<times> 's) \<Rightarrow> rootNode list \<Rightarrow> 's \<Rightarrow> 's" where
  "visitRoots bundlesOnly fn rootNodes s =
     foldl (\<lambda>acc r.
        if bundlesOnly \<and> children (rootNode_node r) = None then acc
        else snd (dfs fn (rootNode_node r) [] acc)) s rootNodes"

text \<open>\<open>formatBytes\<close> of half of \<open>k\<close>: below \<open>1024\<close> the number is printed as it
  is, with \<open>.5\<close> when \<open>k\<close> is odd.\<close>

definition formatBytesHalf :: "int \<Rightarrow> jsstring" where
  "formatBytesHalf k =
     (if k \<ge> 2 * MB then toFixed (of_int k / of_int (2 * MB)) 2 @ js '' MB''
      else if k \<ge> 2 * KB then toFixed (of_int k / of_int (2 * KB)) 0 @ js '' KB''
      else if even k then toString (k div 2) @ js '' B''
      else (if k < 0 then js ''-'' else []) @ decimal (nat \<bar>k\<bar> div 2) @ js ''.5 B'')"

text \<open>The four blocks of \<open>createViewModes\<close>, in order; each yields the elements it
  appends to the panel.\<close>

definition allView :: "rootNode list \<Rightarrow> mode \<Rightarrow> viewModeEl list" where
  "allView rootNodes currentMode =
     (let bytes = visitRoots False allVisit rootNodes 0
      in [makeViewMode currentMode (js ''all'')
            (js ''All ('' @ formatBytes bytes @ js '')'') Bytes None])"

definition unusedView :: "rootNode list \<Rightarrow> mode \<Rightarrow> viewModeEl list" where
  "unusedView rootNodes currentMode =
     (let (bytes, highlightNodeIds) = visitRoots False unusedVisit rootNodes (0, [])
      in if bytes \<noteq> 0 then
           [makeViewMode currentMode (js ''unused-js'')
              (js ''Unused JS ('' @ formatBytes bytes @ js '')'') WastedBytes
              (Some highlightNodeIds)]
         else [])"

definition largeView :: "rootNode list \<Rightarrow> mode \<Rightarrow> viewModeEl list" where
  "largeView rootNodes currentMode =
     (let (bytes, highlightNodeIds) = visitRoots True largeVisit rootNodes (0, [])
      in if bytes \<noteq> 0 then
           [makeViewMode currentMode (js ''large-js'')
              (js ''Large Modules ('' @ formatBytes bytes @ js '')'') Bytes
              (Some highlightNodeIds)]
         else [])"

definition duplicateView :: "rootNode list \<Rightarrow> mode \<Rightarrow> viewModeEl list" where
  "duplicateView rootNodes currentMode =
     (let (halves, highlightNodeIds) = visitRoots True duplicateVisit rootNodes (0, [])
      in if halves \<noteq> 0 then
           [makeViewMode currentMode (js ''duplicate-js'')
              (js ''Duplicate Modules ('' @ formatBytesHalf halves @ js '')'') Bytes
              (Some highlightNodeIds)]
         else [])"

definition createViewModes :: "rootNode list \<Rightarrow> mode \<Rightarrow> viewModeEl list" where
  "createViewModes rootNodes currentMode =
     allView rootNodes currentMode @ unusedView rootNodes currentMode @
     largeView rootNodes currentMode @ duplicateView rootNodes currentMode"

text \<open>The leaves the "Unused JS" mode is about, in the specification's words: the nodes
  without children whose \<open>wastedBytes\<close> is at least 50 KiB, in traversal order.\<close>

definition spec_unused_leaves :: "rootNode list \<Rightarrow> node list" where
  "spec_unused_leaves rootNodes =
     filter (\<lambda>n. children n = None \<and> wastedBytes (props n) \<ge> 51200)
       (concat (map (\<lambda>r. preorder (rootNode_node r)) rootNodes))"

section \<open>Floating point where the program rounds\<close>

text \<open>
  \<open>Math.round(value / total * 100)\<close> divides and multiplies in binary64, and the
  rounding of the two operations shows in the result (\<open>29 / 200 * 100\<close> is
  \<open>14.499999999999998\<close> and rounds to \<open>14\<close>). \<open>fl x\<close> is the double nearest to
  the rational \<open>x\<close> (ties to the even significand), for \<open>x\<close> in the normal range,
  which the quotients of the model's integers are.
\<close>

function log2floor :: "int \<Rightarrow> int" where
  "log2floor n = (if n < 2 then 0 else 1 + log2floor (n div 2))"
  by pat_completeness auto
termination
  by (relation "measure nat") auto

definition pow2 :: "int \<Rightarrow> rat" where
  "pow2 e = (if e \<ge> 0 then 2 ^ nat e else 1 / 2 ^ nat (- e))"

text \<open>The exponent \<open>e\<close> with \<open>2^e \<le> |x| < 2^(e+1)\<close>, for \<open>x \<noteq> 0\<close>.\<close>

definition binade :: "rat \<Rightarrow> int" where
  "binade x =
     (let (p, q) = quotient_of \<bar>x\<bar>;
          e = log2floor p - log2floor q
      in if \<bar>x\<bar> < pow2 e then e - 1 else e)"

definition roundEven :: "rat \<Rightarrow> int" where
  "roundEven x =
     (let f = \<lfloor>x\<rfloor>; d = x - of_int f
      in if d < 1 / 2 then f else if d > 1 / 2 then f + 1 else if even f then f else f + 1)"

definition fl :: "rat \<Rightarrow> rat" where
  "fl x =
     (if x = 0 then 0
      else (let u = pow2 (binade x - 52) in of_int (roundEven (x / u)) * u))"

text \<open>\<open>`${Math.round(value / total * 100)}`\<close>. An \<open>undefined\<close> operand and
  \<open>0 / 0\<close> give \<open>NaN\<close>, another division by zero an infinity; \<open>Math.round\<close> takes
  the nearest integer, the larger of two.\<close>

definition percent :: "int option \<Rightarrow> int option \<Rightarrow> jsstring" where
  "percent v tot =
     (case (v, tot) of
        (Some a, Some b) \<Rightarrow>
          if b = 0 then
            (if a = 0 then js ''NaN'' else if a > 0 then js ''Infinity'' else js ''-Infinity'')
          else toString \<lfloor>fl (fl (of_int a / of_int b) * 100) + 1 / 2\<rfloor>
      | _ \<Rightarrow> js ''NaN'')"

section \<open>Colors\<close>

text \<open>\<open>Util.hsl(h, s, l)\<close> builds the string \<open>hsl(h, s%, l%)\<close>; the model keeps its
  three numbers.\<close>

definition hsl :: "rat \<Rightarrow> int \<Rightarrow> int \<Rightarrow> css" where
  "hsl h s l = Hsl h s l"

text \<open>\<open>Util.rgb2hue\<close>, in exact rational arithmetic (the source computes in binary64,
  so its hues differ from these by rounding errors; the program only hands hues out and
  prints them). The \<open>switch\<close> compares \<open>max\<close> with \<open>r\<close>, \<open>g\<close> and \<open>b\<close> in this
  order.\<close>

definition rgb2hue :: "rat \<Rightarrow> rat \<Rightarrow> rat \<Rightarrow> rat" where
  "rgb2hue r0 g0 b0 =
     (let r = r0 / 255; g = g0 / 255; b = b0 / 255;
          mx = max r (max g b);
          mn = min r (min g b);
          c = mx - mn;
          hue =
            (if c = 0 then 0
             else if mx = r then
               (let segment = (g - b) / c;
                    shift = (if segment < 0 then 360 / 60 else 0 / 60)
                in segment + shift)
             else if mx = g then (b - r) / c + 120 / 60
             else (r - g) / c + 240 / 60)
      in hue * 60)"

text \<open>\<open>parseInt(part, 16)\<close> on two hexadecimal digits, and the three parts of
  \<open>hex.slice(1)\<close>.\<close>

definition hexDigit :: "char \<Rightarrow> nat" where
  "hexDigit c = (if of_char c < (65 :: nat) then of_char c - 48 else of_char c - 55)"

fun hexParts :: "string \<Rightarrow> nat list" where
  "hexParts (a # b # rest) = (16 * hexDigit a + hexDigit b) # hexParts rest"
| "hexParts _ = []"

definition hexHue :: "string \<Rightarrow> rat" where
  "hexHue hex =
     (case hexParts (drop 1 hex) of
        [r, g, b] \<Rightarrow> rgb2hue (of_nat r) (of_nat g) (of_nat b)
      | _ \<Rightarrow> 0)"

definition COLOR_HUES :: "rat list" where
  "COLOR_HUES =
     map hexHue
       [''#F44336'', ''#E91E63'', ''#9C27B0'', ''#673AB7'', ''#3F51B5'', ''#03A9F4'',
        ''#00BCD4'', ''#009688'', ''#4CAF50'', ''#8BC34A'', ''#CDDC39'', ''#FFC107'',
        ''#FF9800'', ''#FF5722'', ''#795548'', ''#9E9E9E'', ''#607D8B'']"

section \<open>TreemapViewer\<close>

text \<open>
  Every failure of the program is a thrown error. \<open>TypeError\<close> is the error the
  JavaScript engine throws on its own, for a property read from \<open>undefined\<close> or
  \<open>null\<close>.
\<close>

datatype error =
  MissingTreemapData
  | QueryNotFound string
  | UnknownRootNode
  | InvalidModeSelector
  | TypeError

text \<open>
  The layout library \<open>webtreemap\<close> is not part of the repository. The viewer calls
  \<open>webtreemap.sort(node)\<close> and, through \<open>new webtreemap.TreeMap(node, ...)\<close>,
  \<open>treemap.render(el)\<close>; both work on the tree in place, so they are functions on
  trees here, and parameters of the viewer's operations.
\<close>

record webtreemap =
  wt_sort :: "node \<Rightarrow> node"
  wt_render :: "node \<Rightarrow> node"

text \<open>The table handed to \<open>Tabulator\<close>: the rows \<open>data\<close> and the two maxima of the
  progress columns.\<close>

record tableRow =
  rowName :: jsstring
  rowBytes :: int
  rowWastedBytes :: int

record tableData =
  rows :: "tableRow list"
  maxSize :: int
  maxWastedBytes :: int

text \<open>\<open>this.treemap\<close> holds the tree it was built over. That tree is the object
  \<open>this.currentRootNode\<close> right after \<open>show\<close>; it is another one once
  \<open>this.currentRootNode\<close> has been assigned again.\<close>

datatype treemapRef = NoTreemap | TreemapOfCurrent | TreemapOf node

text \<open>
  The state of a viewer: the fields the constructor sets, \<open>this.treemap\<close>, and the
  parts of the hosting page the viewer reads and writes. \<open>elements\<close> lists the
  selectors for which \<open>document.querySelector\<close> finds an element;
  \<open>partitionSelectorValue\<close> is the value of \<open>.partition-selector\<close>,
  \<open>viewModesPanel\<close> the children of \<open>.panel--modals\<close> and \<open>gridPanel\<close> the table
  in \<open>.panel--datagrid\<close>.
\<close>

record viewer =
  mode :: mode
  treemapData :: treemapData
  currentRootNode :: "node option"
  documentUrl :: jsstring
  getHue :: "rat hasher"
  treemap :: treemapRef
  elements :: "string list"
  partitionSelectorValue :: "metric option"
  viewModesPanel :: "viewModeEl list"
  gridPanel :: "tableData option"

text \<open>\<open>Util.find(query)\<close> returns an element or throws.\<close>

definition Util_find :: "string list \<Rightarrow> string \<Rightarrow> error option" where
  "Util_find els query = (if query \<in> set els then None else Some (QueryNotFound query))"

subsection \<open>The constructor\<close>

text \<open>\<open>[...rootNode.id]\<close> iterates code points, and \<open>char.charCodeAt(0)\<close> is the
  first code unit of each: a surrogate pair counts with its high surrogate only.\<close>

fun codePointHeads :: "jsstring \<Rightarrow> 16 word list" where
  "codePointHeads (c # d # rest) =
     (if 0xD800 \<le> c \<and> c \<le> 0xDBFF \<and> 0xDC00 \<le> d \<and> d \<le> 0xDFFF
      then c # codePointHeads rest
      else c # codePointHeads (d # rest))"
| "codePointHeads cs = cs"

definition idHashOf :: "jsstring \<Rightarrow> int" where
  "idHashOf i = foldl (\<lambda>acc c. acc + uint c) 0 (codePointHeads i)"

definition setOriginalId :: "unit \<Rightarrow> node \<Rightarrow> jsstring \<Rightarrow> node_fields \<times> unit" where
  "setOriginalId u node fullId = ((props node)\<lparr>originalId := nodeId (props node)\<rparr>, u)"

definition setIdHash :: "int \<Rightarrow> unit \<Rightarrow> node \<Rightarrow> jsstring \<Rightarrow> node_fields \<times> unit" where
  "setIdHash h u node fullId = ((props node)\<lparr>idHash := Some h\<rparr>, u)"

definition stampRootNode :: "rootNode \<Rightarrow> rootNode" where
  "stampRootNode r =
     (let n1 = fst (dfs setOriginalId (rootNode_node r) [] ());
          h = idHashOf (rootId r);
          n2 = fst (dfs (setIdHash h) n1 [] ())
      in r\<lparr>rootNode_node := n2\<rparr>)"

text \<open>The options: \<open>optTreemapData\<close> is
  \<open>options.lhr.audits['treemap-data'].details.treemapData\<close>, \<open>None\<close> when the
  details or the data are missing. The constructor stamps the data it is given, in place.
  Its second argument here is the page the viewer lives in (the source passes the
  element \<open>.panel--treemap\<close> of that page).\<close>

record options =
  optTreemapData :: "treemapData option"
  requestedUrl :: jsstring
  optMode :: mode

definition TreemapViewer :: "options \<Rightarrow> string list \<Rightarrow> error + viewer" where
  "TreemapViewer opts els =
     (case optTreemapData opts of
        None \<Rightarrow> Inl MissingTreemapData
      | Some data \<Rightarrow>
          Inr \<lparr>mode = optMode opts,
               treemapData = map (\<lambda>(group, rootNodes). (group, map stampRootNode rootNodes)) data,
               currentRootNode = None,
               documentUrl = requestedUrl opts,
               getHue = stableHasher COLOR_HUES,
               treemap = NoTreemap,
               elements = els,
               partitionSelectorValue = None,
               viewModesPanel = [],
               gridPanel = None\<rparr>)"

definition findRootNode :: "viewer \<Rightarrow> jsstring \<Rightarrow> rootNode option" where
  "findRootNode v i =
     find (\<lambda>r. rootId r = i) (concat (map snd (treemapData v)))"

subsection \<open>createViewModes and createTable, with their lookups\<close>

definition createViewModesIn ::
  "string list \<Rightarrow> rootNode list \<Rightarrow> mode \<Rightarrow> error + viewModeEl list" where
  "createViewModesIn els rootNodes currentMode =
     (case Util_find els ''.panel--modals'' of
        Some e \<Rightarrow> Inl e
      | None \<Rightarrow> Inr (createViewModes rootNodes currentMode))"

definition tableVisit ::
  "tableData \<Rightarrow> node \<Rightarrow> jsstring \<Rightarrow> node_fields \<times> tableData" where
  "tableVisit t node fullId =
     (if children node \<noteq> None then (props node, t)
      else
        (let b = bytes (props node); w = wastedBytes (props node)
         in (props node,
             \<lparr>rows = rows t @ [\<lparr>rowName = fullId, rowBytes = b, rowWastedBytes = w\<rparr>],
              maxSize = (if b \<noteq> 0 then max (maxSize t) b else maxSize t),
              maxWastedBytes = (if w \<noteq> 0 then max (maxWastedBytes t) w else maxWastedBytes t)\<rparr>)))"

definition createTable :: "string list \<Rightarrow> rootNode list \<Rightarrow> error + tableData" where
  "createTable els rootNodes =
     (case Util_find els ''.panel--datagrid'' of
        Some e \<Rightarrow> Inl e
      | None \<Rightarrow>
          Inr (visitRoots False tableVisit rootNodes \<lparr>rows = [], maxSize = 0, maxWastedBytes = 0\<rparr>))"

subsection \<open>setTitle\<close>

text \<open>
  \<open>setTitle\<close> is called with \<open>this.currentRootNode\<close> only, so it works on that
  field. The test \<open>node === this.currentRootNode\<close> holds for the first node the
  traversal visits and for no other; the callback's state says whether the next node is
  the first. \<open>tot\<close> is the \<open>total\<close> of the source,
  \<open>this.currentRootNode[this.mode.partitionBy || 'bytes']\<close>.
\<close>

definition metricOrBytes :: "metric option \<Rightarrow> metric" where
  "metricOrBytes p = (case p of None \<Rightarrow> Bytes | Some m \<Rightarrow> m)"

definition titleOf :: "metric option \<Rightarrow> int option \<Rightarrow> bool \<Rightarrow> node_fields \<Rightarrow> jsstring" where
  "titleOf p tot isRoot f =
     (let unit = (if p = Some ExecutionTime then js ''time'' else js ''bytes'');
          v = metricValue (metricOrBytes p) f;
          calculated = format v unit @ js '' ('' @ percent v tot @ js ''%)'';
          section1 = elide (originalId f) 60;
          section2 =
            (case p of
               Some label \<Rightarrow>
                 if isRoot then metricName label @ js '': '' @ calculated else calculated
             | None \<Rightarrow> calculated)
      in section1 @ [0x20, bullet, 0x20] @ section2)"

definition titleVisit ::
  "metric option \<Rightarrow> int option \<Rightarrow> bool \<Rightarrow> node \<Rightarrow> jsstring \<Rightarrow> node_fields \<times> bool" where
  "titleVisit p tot isRoot node fullId =
     ((props node)\<lparr>nodeId := titleOf p tot isRoot (props node)\<rparr>, False)"

definition setTitle :: "viewer \<Rightarrow> error + viewer" where
  "setTitle v =
     (case currentRootNode v of
        None \<Rightarrow> Inl TypeError
      | Some rootN \<Rightarrow>
          (let p = partitionBy (mode v);
               tot = metricValue (metricOrBytes p) (props rootN)
           in Inr (v\<lparr>currentRootNode := Some (fst (dfs (titleVisit p tot) rootN [] True))\<rparr>)))"

subsection \<open>updateColors and render\<close>

definition colorVisit :: "mode \<Rightarrow> rat hasher \<Rightarrow> node \<Rightarrow> jsstring \<Rightarrow> node_fields \<times> rat hasher" where
  "colorVisit m hue_state node fullId =
     (let f = props node
      in case nodeDom f of
           None \<Rightarrow> (f, hue_state)
         | Some st \<Rightarrow>
             (case highlightNodeIds m of
                Some ids \<Rightarrow>
                  (if originalId f \<in> set ids
                   then (f\<lparr>nodeDom := Some (st\<lparr>backgroundColor := Some (Keyword ''yellow'')\<rparr>)\<rparr>,
                         hue_state)
                   else (f, hue_state))
              | None \<Rightarrow>
                  (case assign hue_state (idHash f) of
                     (None, hue_state') \<Rightarrow> (f, hue_state')
                   | (Some hue, hue_state') \<Rightarrow>
                       (let sat = 60; lum = 90
                        in (f\<lparr>nodeDom := Some (st
                               \<lparr>backgroundColor := Some (hsl hue sat lum),
                                color := Some (Keyword (if lum > 50 then ''black'' else ''white''))\<rparr>)\<rparr>,
                            hue_state')))))"

definition updateColors :: "viewer \<Rightarrow> error + viewer" where
  "updateColors v =
     (case currentRootNode v of
        None \<Rightarrow> Inl TypeError
      | Some rootN \<Rightarrow>
          (let (rootN', hue_state) = dfs (colorVisit (mode v)) rootN [] (getHue v)
           in Inr (v\<lparr>currentRootNode := Some rootN', getHue := hue_state\<rparr>)))"

definition render :: "webtreemap \<Rightarrow> viewer \<Rightarrow> error + viewer" where
  "render lib v =
     (case treemap v of
        NoTreemap \<Rightarrow> Inl TypeError
      | TreemapOfCurrent \<Rightarrow>
          updateColors (v\<lparr>currentRootNode := map_option (wt_render lib) (currentRootNode v)\<rparr>)
      | TreemapOf t \<Rightarrow> updateColors (v\<lparr>treemap := TreemapOf (wt_render lib t)\<rparr>))"

subsection \<open>show\<close>

text \<open>An assignment to \<open>this.currentRootNode\<close>: a treemap built over the tree that
  was current keeps that tree.\<close>

definition setCurrentRootNode :: "node \<Rightarrow> viewer \<Rightarrow> viewer" where
  "setCurrentRootNode n v =
     v\<lparr>currentRootNode := Some n,
       treemap :=
         (case (treemap v, currentRootNode v) of
            (TreemapOfCurrent, Some old) \<Rightarrow> TreemapOf old
          | (TreemapOfCurrent, None) \<Rightarrow> NoTreemap
          | (t, _) \<Rightarrow> t)\<rparr>"

text \<open>The objects \<open>show\<close> builds for a group: a bundle is wrapped in an object without
  \<open>id\<close>, and the root of the group has neither \<open>id\<close> nor \<open>idHash\<close>. Nothing reads
  the \<open>id\<close> of these objects before \<open>setTitle\<close> assigns it except \<open>dfs\<close>, for a
  path that the callbacks of \<open>show\<close>, \<open>setTitle\<close> and \<open>updateColors\<close> ignore; the
  model gives them the empty id.\<close>

definition wrapRootNode :: "rootNode \<Rightarrow> node" where
  "wrapRootNode r =
     (let n = rootNode_node r
      in if children n \<noteq> None then
           Node \<lparr>nodeId = [], originalId = rootId r, idHash = idHash (props n),
                 bytes = bytes (props n), wastedBytes = wastedBytes (props n),
                 executionTime = executionTime (props n), duplicate = False,
                 nodeSize = None, nodeDom = None\<rparr>
             (Some [n])
         else n)"

definition groupRoot :: "jsstring \<Rightarrow> node list \<Rightarrow> node" where
  "groupRoot url chs =
     Node \<lparr>nodeId = [], originalId = url, idHash = None,
           bytes = foldl (\<lambda>acc cur. bytes (props cur) + acc) 0 chs,
           wastedBytes = foldl (\<lambda>acc cur. wastedBytes (props cur) + acc) 0 chs,
           executionTime =
             Some (foldl (\<lambda>acc cur.
                (case executionTime (props cur) of None \<Rightarrow> 0 | Some t \<Rightarrow> t) + acc) 0 chs),
           duplicate = False, nodeSize = None, nodeDom = None\<rparr>
       (Some chs)"

definition setSize :: "metric \<Rightarrow> unit \<Rightarrow> node \<Rightarrow> jsstring \<Rightarrow> node_fields \<times> unit" where
  "setSize m u node fullId = ((props node)\<lparr>nodeSize := metricValue m (props node)\<rparr>, u)"

text \<open>The part of \<open>show\<close> after the selector has been resolved to \<open>rootNodes\<close> and
  \<open>this.currentRootNode\<close> has been assigned: the two panels, the copy of the tree
  (\<open>JSON.parse(JSON.stringify(...))\<close> gives an equal tree of new objects), its sizes,
  order and titles, the new treemap and the first rendering.\<close>

definition showResolved :: "webtreemap \<Rightarrow> viewer \<Rightarrow> mode \<Rightarrow> rootNode list \<Rightarrow> error option \<times> viewer" where
  "showResolved lib v m rootNodes =
     (case createViewModesIn (elements v) rootNodes m of
        Inl e \<Rightarrow> (Some e, v)
      | Inr panel \<Rightarrow>
          (let v1 = v\<lparr>viewModesPanel := panel\<rparr>
           in case createTable (elements v1) rootNodes of
                Inl e \<Rightarrow> (Some e, v1)
              | Inr table \<Rightarrow>
                  (let v2 = v1\<lparr>gridPanel := Some table\<rparr>
                   in case currentRootNode v2 of
                        None \<Rightarrow> (Some TypeError, v2)
                      | Some rootN \<Rightarrow>
                          (let v3 = setCurrentRootNode rootN v2;
                               sized = fst (dfs (setSize (metricOrBytes (partitionBy m))) rootN [] ());
                               v4 = v3\<lparr>currentRootNode := Some (wt_sort lib sized)\<rparr>
                           in case setTitle v4 of
                                Inl e \<Rightarrow> (Some e, v4)
                              | Inr v5 \<Rightarrow>
                                  (let v6 = v5\<lparr>treemap := TreemapOfCurrent\<rparr>
                                   in case render lib v6 of
                                        Inl e \<Rightarrow> (Some e, v6)
                                      | Inr v7 \<Rightarrow> (None, v7))))))"

text \<open>\<open>show(mode)\<close> (\<open>show\<close> is a keyword of Isabelle): the error thrown, if any,
  and the state left. \<open>this.treemapData[mode.selector.value]\<close> is \<open>undefined\<close> for a
  value that is not a group (or a value without \<open>map\<close>, for a name inherited from
  \<open>Object.prototype\<close>), and \<open>rootNodes.map\<close> then throws a \<open>TypeError\<close>.\<close>

definition showMode :: "webtreemap \<Rightarrow> viewer \<Rightarrow> mode \<Rightarrow> error option \<times> viewer" where
  "showMode lib v mode0 =
     (let m = (if partitionBy mode0 = None then mode0\<lparr>partitionBy := Some Bytes\<rparr> else mode0);
          v1 = v\<lparr>mode := m\<rparr>
      in case Util_find (elements v1) ''.partition-selector'' of
           Some e \<Rightarrow> (Some e, v1)
         | None \<Rightarrow>
             (let v2 = v1\<lparr>partitionSelectorValue := partitionBy m\<rparr>
              in if selectorType (selector m) = js ''group'' then
                   (case map_of (treemapData v2) (selectorValue (selector m)) of
                      None \<Rightarrow> (Some TypeError, v2)
                    | Some rootNodes \<Rightarrow>
                        showResolved lib
                          (setCurrentRootNode
                             (groupRoot (documentUrl v2) (map wrapRootNode rootNodes)) v2)
                          m rootNodes)
                 else if selectorType (selector m) = js ''rootNodeId'' then
                   (case findRootNode v2 (selectorValue (selector m)) of
                      None \<Rightarrow> (Some UnknownRootNode, v2)
                    | Some rootNode \<Rightarrow>
                        showResolved lib (setCurrentRootNode (rootNode_node rootNode) v2)
                          m [rootNode])
                 else (Some InvalidModeSelector, v2)))"

section \<open>The layout library and example data\<close>

text \<open>
  Modelled from the spec: the external layout library, which is not part of the
  repository. The specification says that \<open>show\<close> lets it "sort children by
  \<open>size\<close>" and that the renderer "attaches per-node DOM references". So
  \<open>sortBySize\<close> orders the children of every node by decreasing \<open>size\<close> (an absent
  size counting as \<open>0\<close>), and \<open>attachDom\<close> gives every node that has none an
  element whose style is unset.
\<close>

fun sortBySize :: "node \<Rightarrow> node" where
  "sortBySize (Node f cs) =
     Node f (map_option
       (\<lambda>ch. sort_key (\<lambda>c. - (case nodeSize (props c) of None \<Rightarrow> 0 | Some k \<Rightarrow> k))
                (map sortBySize ch)) cs)"

fun attachDom :: "node \<Rightarrow> node" where
  "attachDom (Node f cs) =
     Node (case nodeDom f of
             None \<Rightarrow> f\<lparr>nodeDom := Some \<lparr>backgroundColor = None, color = None\<rparr>\<rparr>
           | Some st \<Rightarrow> f)
          (map_option (map attachDom) cs)"

definition specLayout :: webtreemap where
  "specLayout = \<lparr>wt_sort = sortBySize, wt_render = attachDom\<rparr>"

text \<open>The hosting page of the application, with the elements the viewer looks up.\<close>

definition appPage :: "string list" where
  "appPage = [''.panel--treemap'', ''.partition-selector'', ''.bundle-selector'',
              ''.lh-button--toggle-table'', ''.panel--modals'', ''.panel--datagrid'', ''main'']"

text \<open>The end-to-end example of the specification: one group \<open>"scripts"\<close> with one
  bundle of \<open>400\<close> bytes whose two leaves have \<open>100\<close> and \<open>300\<close> bytes.\<close>

definition exampleBundle :: rootNode where
  "exampleBundle =
     \<lparr>rootId = js ''bundle.js'',
      rootNode_node =
        dataNode (js ''bundle.js'') 400 0
          (Some [dataNode (js ''a.js'') 100 0 None, dataNode (js ''b.js'') 300 0 None])\<rparr>"

definition exampleMode :: mode where
  "exampleMode =
     \<lparr>selector = \<lparr>selectorType = js ''rootNodeId'', selectorValue = js ''bundle.js'',
                   viewId = None\<rparr>,
      partitionBy = Some Bytes, highlightNodeIds = None\<rparr>"

definition exampleOptions :: options where
  "exampleOptions =
     \<lparr>optTreemapData = Some [(js ''scripts'', [exampleBundle])],
      requestedUrl = js ''https://example.com/'',
      optMode = exampleMode\<rparr>"

text \<open>Names for the proofs about the "Unused JS" mode: the filter of
  \<open>spec_unused_leaves\<close>, the sum over those leaves, and a group of one leaf.\<close>

definition unusedLeaf :: "node \<Rightarrow> bool" where
  "unusedLeaf n \<longleftrightarrow> children n = None \<and> wastedBytes (props n) \<ge> 51200"

definition spec_unused_total :: "rootNode list \<Rightarrow> int" where
  "spec_unused_total rootNodes =
     sum_list (map (\<lambda>n. wastedBytes (props n)) (spec_unused_leaves rootNodes))"

definition unusedExample :: "int \<Rightarrow> rootNode list" where
  "unusedExample w = [\<lparr>rootId = js ''a.js'', rootNode_node = dataNode (js ''a.js'') w w None\<rparr>]"

text \<open>The viewer the constructor builds for the example.\<close>

definition exampleViewer :: viewer where
  "exampleViewer = projr (TreemapViewer exampleOptions appPage)"

text \<open>The mode \<open>show\<close> stores: \<open>partitionBy\<close> defaults to \<open>'bytes'\<close>.\<close>

definition storedMode :: "mode \<Rightarrow> mode" where
  "storedMode m = (if partitionBy m = None then m\<lparr>partitionBy := Some Bytes\<rparr> else m)"

text \<open>The viewer after \<open>show\<close> of the example, and the pairs of \<open>originalId\<close> and
  label of a viewer's current tree, in pre-order.\<close>

definition exampleShown :: viewer where
  "exampleShown = snd (showMode specLayout exampleViewer exampleMode)"

definition titles :: "viewer \<Rightarrow> (jsstring \<times> jsstring) list" where
  "titles v =
     (case currentRootNode v of
        None \<Rightarrow> []
      | Some r \<Rightarrow> map (\<lambda>n. (originalId (props n), nodeId (props n))) (preorder r))"

text \<open>\<open>s.includes(t)\<close>.\<close>

fun contains :: "jsstring \<Rightarrow> jsstring \<Rightarrow> bool" where
  "contains [] t = (t = [])"
| "contains (c # s) t = (take (length t) (c # s) = t \<or> contains s t)"

text \<open>Label synthesis in the specification's words: every node gets the label
  \<open>lab\<close> computes from its properties, the root being told apart.\<close>

fun relabel :: "(bool \<Rightarrow> node_fields \<Rightarrow> jsstring) \<Rightarrow> bool \<Rightarrow> node \<Rightarrow> node" where
  "relabel lab isRoot (Node f cs) =
     Node (f\<lparr>nodeId := lab isRoot f\<rparr>) (map_option (map (relabel lab False)) cs)"

text \<open>Eighteen bundles in one group. Their ids have sixteen different sums of character
  codes: \<open>"ab"\<close> and \<open>"ba"\<close> have the same sum, and so have \<open>"ac"\<close> and \<open>"ca"\<close>.\<close>

definition manyIds :: "jsstring list" where
  "manyIds = map js [''a'', ''b'', ''c'', ''d'', ''e'', ''f'', ''g'', ''h'', ''i'', ''j'',
                     ''k'', ''l'', ''m'', ''n'', ''ab'', ''ba'', ''ac'', ''ca'']"

definition manyBundles :: "rootNode list" where
  "manyBundles =
     map (\<lambda>i. \<lparr>rootId = i,
               rootNode_node = dataNode i 10 0 (Some [dataNode (js ''index.js'') 10 0 None])\<rparr>)
       manyIds"

definition manyOptions :: options where
  "manyOptions =
     \<lparr>optTreemapData = Some [(js ''scripts'', manyBundles)],
      requestedUrl = js ''https://example.com/'',
      optMode = \<lparr>selector = \<lparr>selectorType = js ''group'', selectorValue = js ''scripts'',
                              viewId = None\<rparr>,
                 partitionBy = Some Bytes, highlightNodeIds = None\<rparr>\<rparr>"

definition manyViewer :: viewer where
  "manyViewer = projr (TreemapViewer manyOptions appPage)"

definition manyShown :: viewer where
  "manyShown = snd (showMode specLayout manyViewer (optMode manyOptions))"

text \<open>The \<open>originalId\<close>s of the children of the current root whose background is a hue.\<close>

definition hasHue :: "node \<Rightarrow> bool" where
  "hasHue n =
     (case nodeDom (props n) of
        None \<Rightarrow> False
      | Some st \<Rightarrow> (case backgroundColor st of Some (Hsl h s l) \<Rightarrow> True | _ \<Rightarrow> False))"

definition huedChildren :: "viewer \<Rightarrow> jsstring list" where
  "huedChildren v =
     (case currentRootNode v of
        None \<Rightarrow> []
      | Some r \<Rightarrow>
          (case children r of
             None \<Rightarrow> []
           | Some cs \<Rightarrow> map (\<lambda>n. originalId (props n)) (filter hasHue cs)))"

text \<open>A viewer session: the constructor's viewer, and what \<open>show\<close>, \<open>render\<close> and
  \<open>updateColors\<close> (the operations the listeners and controls call) lead to.\<close>

inductive session :: "webtreemap \<Rightarrow> viewer \<Rightarrow> bool" for lib :: webtreemap where
  constructed: "TreemapViewer opts els = Inr v \<Longrightarrow> session lib v"
| shown: "session lib v \<Longrightarrow> session lib (snd (showMode lib v m))"
| rendered: "session lib v \<Longrightarrow> render lib v = Inr v' \<Longrightarrow> session lib v'"
| recolored: "session lib v \<Longrightarrow> updateColors v = Inr v' \<Longrightarrow> session lib v'"

text \<open>The tree \<open>show\<close> hands to \<open>updateColors\<close> for a group, with the layout library
  of the specification: the group's root over the wrapped root nodes, with sizes, sorted,
  labelled, and with elements attached.\<close>

definition groupTree :: "viewer \<Rightarrow> mode \<Rightarrow> rootNode list \<Rightarrow> node" where
  "groupTree v sm rs =
     (let t1 = sortBySize (fst (dfs (setSize (metricOrBytes (partitionBy sm)))
                 (groupRoot (documentUrl v) (map wrapRootNode rs)) [] ()))
      in attachDom (relabel
           (titleOf (partitionBy sm) (metricValue (metricOrBytes (partitionBy sm)) (props t1)))
           True t1))"

definition manyColored :: "node \<times> rat hasher" where
  "manyColored =
     dfs (colorVisit (optMode manyOptions))
       (groupTree manyViewer (optMode manyOptions) (map stampRootNode manyBundles)) []
       (stableHasher COLOR_HUES)"

text \<open>A node with an element attached whose \<open>idHash\<close> is \<open>0\<close>.\<close>

definition probeNode :: node where
  "probeNode =
     Node \<lparr>nodeId = js ''x'', originalId = js ''x'', idHash = Some 0, bytes = 1,
           wastedBytes = 0, executionTime = None, duplicate = False, nodeSize = None,
           nodeDom = Some \<lparr>backgroundColor = None, color = None\<rparr>\<rparr> None"

section \<open>Properties of Util\<close>

lemma length_js: "length (js s) = length s"
  by (simp add: js_def)

text \<open>
  C5. For every string \<open>s\<close> and natural number \<open>n\<close>: when \<open>s\<close> has at most
  \<open>n\<close> code units, \<open>elide s n\<close> is \<open>s\<close>; when it has more, \<open>elide s n\<close> has
  \<open>n + 1\<close> code units, the last one is the ellipsis and the first \<open>n\<close> are the
  first \<open>n\<close> of \<open>s\<close>.
\<close>

theorem elide_spec:
  "(length s \<le> n \<longrightarrow> elide s (int n) = s) \<and>
   (length s > n \<longrightarrow>
      length (elide s (int n)) = n + 1 \<and>
      last (elide s (int n)) = ellipsis \<and>
      take n (elide s (int n)) = take n s)"
  by (auto simp: elide_def slice_def Let_def min_def)

theorem elide_spec_witness:
  "elide (js ''ab'') (int 2) = js ''ab'' \<and>
   length (elide (js ''abcd'') (int 2)) = 2 + 1 \<and>
   last (elide (js ''abcd'') (int 2)) = ellipsis \<and>
   take 2 (elide (js ''abcd'') (int 2)) = take 2 (js ''abcd'')"
  using elide_spec [of "js ''ab''" 2] elide_spec [of "js ''abcd''" 2]
  by (simp add: length_js)

subsection \<open>formatBytes\<close>

lemma decimal_small: "n < 10 \<Longrightarrow> decimal n = [digit n]"
  by (subst decimal.simps) (simp add: digit_def)

lemma decimal_step: "10 \<le> n \<Longrightarrow> decimal n = decimal (n div 10) @ [digit (n mod 10)]"
  by (subst decimal.simps) (simp add: digit_def)

lemma length_decimal_pos: "0 < length (decimal n)"
  by (subst decimal.simps) simp

lemma decimal_nonempty [simp]: "decimal n \<noteq> []"
  using length_decimal_pos [of n] by (simp del: decimal.simps)

lemma toFixed_2: "0 \<le> x \<Longrightarrow> toFixed x 2 = spec_two_decimals x"
proof -
  assume x: "0 \<le> x"
  define h where "h = nat \<lfloor>x * 100 + 1 / 2\<rfloor>"
  have abs: "\<bar>x\<bar> = x" using x by simp
  consider "h < 10" | "10 \<le> h" "h < 100" | "100 \<le> h" by linarith
  then have "(let m = decimal h; m' = (if length m \<le> 2 then replicate (2 + 1 - length m) 48 @ m else m);
                   k = length m'
               in take (k - 2) m' @ js ''.'' @ drop (k - 2) m') = decimal (h div 100) @ js ''.'' @ [digit (h div 10 mod 10), digit (h mod 10)]"
  proof cases
    case 1
    then show ?thesis by (simp add: decimal_small digit_def del: decimal.simps)
  next
    case 2
    then have "h div 10 < 10" by simp
    with 2 show ?thesis 
      by (simp add: decimal_step decimal_small numeral_2_eq_2 digit_def del: decimal.simps)
  next
    case 3
    then have a: "10 \<le> h" and b: "10 \<le> h div 10" by simp_all
    have c: "h div 10 div 10 = h div 100" by (simp add: div_mult2_eq)
    show ?thesis 
      by (simp add: decimal_step[OF a] decimal_step[OF b] c Let_def del: decimal.simps)
  qed
  then show ?thesis using x
    by (simp add: toFixed_def spec_two_decimals_def abs h_def Let_def del: decimal.simps)
qed

lemma toFixed_0: "0 \<le> x \<Longrightarrow> toFixed x 0 = spec_zero_decimals x"
  by (simp add: toFixed_def spec_zero_decimals_def del: decimal.simps)

text \<open>
  C6. \<open>formatBytes n\<close> is \<open>n / (1024 * 1024)\<close> with two decimal places followed by
  \<open>" MB"\<close> from \<open>1048576\<close> on, \<open>n / 1024\<close> with no decimal place followed by
  \<open>" KB"\<close> from \<open>1024\<close> up to there, and \<open>n\<close> followed by \<open>" B"\<close> below;
  \<open>formatBytes 500\<close> is \<open>"500 B"\<close>, \<open>formatBytes 2048\<close> is \<open>"2 KB"\<close> and
  \<open>formatBytes (3 * 1024 * 1024)\<close> is \<open>"3.00 MB"\<close>.
\<close>

theorem formatBytes_spec:
  "(n \<ge> 1048576 \<longrightarrow>
      formatBytes n = spec_two_decimals (of_int n / (1024 * 1024)) @ js '' MB'') \<and>
   (1024 \<le> n \<and> n < 1048576 \<longrightarrow>
      formatBytes n = spec_zero_decimals (of_int n / 1024) @ js '' KB'') \<and>
   (n < 1024 \<longrightarrow> formatBytes n = toString n @ js '' B'') \<and>
   formatBytes 500 = js ''500 B'' \<and>
   formatBytes 2048 = js ''2 KB'' \<and>
   formatBytes (3 * 1024 * 1024) = js ''3.00 MB''"
proof -
  have mb: "n \<ge> 1048576 \<Longrightarrow> formatBytes n = spec_two_decimals (of_int n / (1024 * 1024)) @ js '' MB''"
    by (simp add: formatBytes_def MB_def KB_def toFixed_2 del: decimal.simps)
  have kb: "1024 \<le> n \<Longrightarrow> n < 1048576 \<Longrightarrow> formatBytes n = spec_zero_decimals (of_int n / 1024) @ js '' KB''"
    by (simp add: formatBytes_def MB_def KB_def toFixed_0 del: decimal.simps)
  have b: "n < 1024 \<Longrightarrow> formatBytes n = toString n @ js '' B''"
    by (simp add: formatBytes_def MB_def KB_def del: decimal.simps)
  have e1: "formatBytes 500 = js ''500 B''"
    by code_simp
  have e2: "formatBytes 2048 = js ''2 KB''"
    by code_simp
  have e3: "formatBytes (3 * 1024 * 1024) = js ''3.00 MB''"
    by code_simp
  from mb kb b e1 e2 e3 show ?thesis by blast
qed


theorem formatBytes_spec_witness:
  "formatBytes 1572864 = js ''1.50 MB'' \<and>
   formatBytes 61440 = js ''60 KB'' \<and>
   formatBytes (- 5) = js ''-5 B''"
proof -
  have a: "spec_two_decimals (of_int 1572864 / (1024 * 1024)) @ js '' MB'' = js ''1.50 MB''"
    by code_simp
  have b: "spec_zero_decimals (of_int 61440 / 1024) @ js '' KB'' = js ''60 KB''"
    by code_simp
  have c: "toString (- 5) @ js '' B'' = js ''-5 B''"
    by code_simp
  show ?thesis
    using formatBytes_spec [of 1572864] formatBytes_spec [of 61440]
      formatBytes_spec [of "- 5"] a b c
    by simp
qed

subsection \<open>stableHasher\<close>

lemma spliceStart_less:
  assumes "0 < n"
  shows "spliceStart (remainder h n) n < n"
proof (cases h)
  case None
  with assms show ?thesis by (simp add: spliceStart_def remainder_def)
next
  case (Some a)
  have m1: "0 \<le> a mod int n" "a mod int n < int n"
    using assms by simp_all
  have m2: "0 \<le> (- a) mod int n" "(- a) mod int n < int n"
    using assms by simp_all
  show ?thesis
  proof (cases "a < 0")
    case True
    with Some assms m2 show ?thesis
      by (simp add: spliceStart_def remainder_def) linarith
  next
    case False
    with Some assms m1 show ?thesis
      by (simp add: spliceStart_def remainder_def)
  qed
qed

lemma splice1_removes:
  fixes h :: "int option"
  assumes "xs \<noteq> []"
  defines "i \<equiv> spliceStart (remainder h (length xs)) (length xs)"
  shows "i < length xs \<and> splice1 xs (remainder h (length xs)) = ([xs ! i], take i xs @ drop (Suc i) xs)"
proof -
  have i: "i < length xs" unfolding i_def using assms(1) by (simp add: spliceStart_less)
  then have "take 1 (drop i xs) = [xs ! i]"
    by (metis Cons_nth_drop_Suc One_nat_def take0 take_Suc_Cons)
  with i show ?thesis by (simp add: splice1_def i_def Let_def)
qed

lemma assign_known:
  "map_of (assignedItems s) h = Some v \<Longrightarrow> assign s h = (Some v, s)"
  by (simp add: assign_def)

lemma assign_exhausted:
  "map_of (assignedItems s) h = None \<Longrightarrow> items s = [] \<Longrightarrow> assign s h = (None, s)"
  by (simp add: assign_def)

lemma update_absent:
  "k \<notin> fst ` set al \<Longrightarrow> AList.update k v al = al @ [(k, v)]"
  by (induction al) auto

lemma assign_fresh:
  fixes h :: "int option"
  assumes "map_of (assignedItems s) h = None" "items s \<noteq> []"
  defines "i \<equiv> spliceStart (remainder h (length (items s))) (length (items s))"
  shows "assign s h = (Some (items s ! i),
           \<lparr>items = take i (items s) @ drop (Suc i) (items s),
            assignedItems = assignedItems s @ [(h, items s ! i)]\<rparr>)"
proof -
  have "h \<notin> fst ` set (assignedItems s)" using assms(1) by (simp add: map_of_eq_None_iff)
  then have u: "AList.update h v (assignedItems s) = assignedItems s @ [(h, v)]" for v
    by (rule update_absent)
  show ?thesis
    using assms(1,2) splice1_removes [OF assms(2), of h]
    by (simp add: assign_def i_def u)
qed


lemma slots_init: "slots pool (stableHasher pool) [0..<length pool] (\<lambda>_. 0)"
  by (simp add: slots_def stableHasher_def map_nth)

lemma assign_cases:
  obtains (known) v where "map_of (assignedItems s) h = Some v" "assign s h = (Some v, s)"
  | (exhausted) "map_of (assignedItems s) h = None" "items s = []" "assign s h = (None, s)"
  | (fresh) i where "map_of (assignedItems s) h = None" "i < length (items s)"
      "assign s h = (Some (items s ! i),
           \<lparr>items = take i (items s) @ drop (Suc i) (items s),
            assignedItems = assignedItems s @ [(h, items s ! i)]\<rparr>)"
proof (cases "map_of (assignedItems s) h")
  case (Some v)
  show ?thesis by (rule known [OF Some assign_known [OF Some]])
next
  case None
  show ?thesis
  proof (cases "items s = []")
    case True
    show ?thesis by (rule exhausted [OF None True assign_exhausted [OF None True]])
  next
    case False
    then have lt: "spliceStart (remainder h (length (items s))) (length (items s)) < length (items s)"
      by (simp add: spliceStart_less)
    show ?thesis by (rule fresh [OF None lt assign_fresh [OF None False]])
  qed
qed

lemma slots_assign:
  assumes "slots pool s ps pos"
  shows "\<exists>ps' pos'. slots pool (snd (assign s h)) ps' pos'"
proof (cases rule: assign_cases [of s h])
  case (known v)
  then have "snd (assign s h) = s" by simp
  with assms show ?thesis by (intro exI [of _ ps] exI [of _ pos]) simp
next
  case exhausted
  then have "snd (assign s h) = s" by simp
  with assms show ?thesis by (intro exI [of _ ps] exI [of _ pos]) simp
next
  case (fresh i)
  let ?A = "assignedItems s"
  from assms have it: "items s = map ((!) pool) ps" and dps: "distinct ps"
    and bps: "\<forall>p\<in>set ps. p < length pool" and dk: "distinct (map fst ?A)"
    and inj: "inj_on pos (fst ` set ?A)"
    and old: "\<forall>(k, x)\<in>set ?A. pos k < length pool \<and> pool ! pos k = x \<and> pos k \<notin> set ps"
    and len: "length ps + length ?A = length pool"
    by (simp_all add: slots_def)
  from fresh(2) it have i: "i < length ps" by simp
  define ps' where "ps' = take i ps @ drop (Suc i) ps"
  define pos' where "pos' = pos(h := ps ! i)"
  define s' where "s' = \<lparr>items = take i (items s) @ drop (Suc i) (items s),
            assignedItems = ?A @ [(h, items s ! i)]\<rparr>"
  have hk: "h \<notin> fst ` set ?A" using fresh(1) by (simp add: map_of_eq_None_iff)
  have sub: "set ps' \<subseteq> set ps"
    unfolding ps'_def by (auto dest: in_set_takeD in_set_dropD)
  have notin: "ps ! i \<notin> set ps'"
  proof -
    have "ps = take i ps @ ps ! i # drop (Suc i) ps" using i by (simp add: id_take_nth_drop)
    then have "distinct (take i ps @ ps ! i # drop (Suc i) ps)" using dps by simp
    then show ?thesis unfolding ps'_def by auto
  qed
  have d': "distinct ps'"
  proof -
    have "ps = take i ps @ ps ! i # drop (Suc i) ps" using i by (simp add: id_take_nth_drop)
    then have "distinct (take i ps @ ps ! i # drop (Suc i) ps)" using dps by simp
    then show ?thesis unfolding ps'_def by auto
  qed
  have l': "length ps' = length ps - 1" unfolding ps'_def using i by simp
  have c1: "items s' = map ((!) pool) ps'"
    by (simp add: s'_def ps'_def it take_map drop_map)
  have c3: "\<forall>p\<in>set ps'. p < length pool" using sub bps by blast
  have c4: "distinct (map fst (assignedItems s'))" using dk hk by (simp add: s'_def)
  have agree: "\<And>k. k \<in> fst ` set ?A \<Longrightarrow> pos' k = pos k" using hk by (auto simp: pos'_def)
  have range_old: "\<And>k. k \<in> fst ` set ?A \<Longrightarrow> pos k \<notin> set ps" using old by fastforce
  have c5: "inj_on pos' (fst ` set (assignedItems s'))"
  proof -
    have "inj_on pos' (fst ` set ?A)" using inj agree by (simp add: inj_on_def)
    moreover have "pos' h \<notin> pos' ` (fst ` set ?A - {h})"
    proof
      assume "pos' h \<in> pos' ` (fst ` set ?A - {h})"
      then obtain k where k: "k \<in> fst ` set ?A" "pos' h = pos' k" by blast
      then have "ps ! i = pos k" using agree by (simp add: pos'_def)
      with range_old [OF k(1)] i show False by (metis nth_mem)
    qed
    ultimately show ?thesis by (simp add: s'_def)
  qed
  have c6: "\<forall>(k, x)\<in>set (assignedItems s'). pos' k < length pool \<and> pool ! pos' k = x \<and> pos' k \<notin> set ps'"
  proof -
    have new: "pos' h < length pool \<and> pool ! pos' h = items s ! i \<and> pos' h \<notin> set ps'"
      using i bps notin it by (simp add: pos'_def)
    have "\<And>k x. (k, x) \<in> set ?A \<Longrightarrow> pos' k < length pool \<and> pool ! pos' k = x \<and> pos' k \<notin> set ps'"
    proof -
      fix k x assume kx: "(k, x) \<in> set ?A"
      then have "k \<in> fst ` set ?A" by force
      then have "pos' k = pos k" by (rule agree)
      moreover from kx old have "pos k < length pool \<and> pool ! pos k = x \<and> pos k \<notin> set ps" by fastforce
      ultimately show "pos' k < length pool \<and> pool ! pos' k = x \<and> pos' k \<notin> set ps'" using sub by auto
    qed
    with new show ?thesis by (auto simp: s'_def)
  qed
  have c7: "length ps' + length (assignedItems s') = length pool"
    using len l' i by (simp add: s'_def)
  have "slots pool s' ps' pos'"
    unfolding slots_def using c1 d' c3 c4 c5 c6 c7 by blast
  moreover have "snd (assign s h) = s'" using fresh(3) by (simp add: s'_def)
  ultimately show ?thesis by (intro exI [of _ ps'] exI [of _ pos']) simp
qed

lemma slots_calls:
  "\<exists>ps pos. slots pool s ps pos \<Longrightarrow> \<exists>ps pos. slots pool (calls s hs) ps pos"
proof (induction hs arbitrary: s)
  case Nil
  then show ?case by simp
next
  case (Cons h hs)
  from Cons.prems obtain ps pos where "slots pool s ps pos" by blast
  then have "\<exists>ps pos. slots pool (snd (assign s h)) ps pos" by (rule slots_assign)
  then show ?case using Cons.IH by simp
qed

lemma slots_reachable: "\<exists>ps pos. slots pool (calls (stableHasher pool) hs) ps pos"
  using slots_calls slots_init by blast


lemma assign_persist:
  assumes "map_of (assignedItems s) h = Some x"
  shows "map_of (assignedItems (snd (assign s h'))) h = Some x"
proof (cases rule: assign_cases [of s h'])
  case (known v)
  with assms show ?thesis by simp
next
  case exhausted
  with assms show ?thesis by simp
next
  case (fresh i)
  with assms show ?thesis by (simp add: map_add_Some_iff)
qed

lemma calls_persist:
  "map_of (assignedItems s) h = Some x \<Longrightarrow> map_of (assignedItems (calls s hs)) h = Some x"
  by (induction hs arbitrary: s) (simp_all add: assign_persist)

lemma assign_empty: "items s = [] \<Longrightarrow> snd (assign s h) = s"
  by (cases rule: assign_cases [of s h]) simp_all

lemma calls_empty: "items s = [] \<Longrightarrow> calls s hs = s"
  by (induction hs) (simp_all add: assign_empty)

lemma assign_memo:
  assumes "fst (assign s h) = Some x"
  shows "map_of (assignedItems (snd (assign s h))) h = Some x"
proof (cases rule: assign_cases [of s h])
  case (known v)
  with assms show ?thesis by simp
next
  case exhausted
  with assms show ?thesis by simp
next
  case (fresh i)
  with assms show ?thesis by (simp add: map_add_Some_iff)
qed

lemma assign_null:
  assumes "fst (assign s h) = None"
  shows "items s = [] \<and> snd (assign s h) = s"
proof (cases rule: assign_cases [of s h])
  case (known v)
  with assms show ?thesis by simp
next
  case exhausted
  then show ?thesis by simp
next
  case (fresh i)
  with assms show ?thesis by simp
qed

lemma assign_stable:
  "fst (assign (calls (snd (assign s h)) hs') h) = fst (assign s h)"
proof (cases "fst (assign s h)")
  case None
  then have "items s = []" "snd (assign s h) = s" using assign_null by blast+
  then show ?thesis by (simp add: calls_empty)
next
  case (Some x)
  then have "map_of (assignedItems (calls (snd (assign s h)) hs')) h = Some x"
    by (simp add: assign_memo calls_persist)
  then show ?thesis using Some by (simp add: assign_known)
qed

lemma slots_positions:
  assumes "slots pool s ps pos"
  shows "inj_on pos (fst ` set (assignedItems s)) \<and>
         (\<forall>h x. map_of (assignedItems s) h = Some x \<longrightarrow> pos h < length pool \<and> pool ! pos h = x)"
proof -
  have "\<And>h x. map_of (assignedItems s) h = Some x \<Longrightarrow> pos h < length pool \<and> pool ! pos h = x"
  proof -
    fix h x assume "map_of (assignedItems s) h = Some x"
    then have "(h, x) \<in> set (assignedItems s)" by (rule map_of_SomeD)
    with assms show "pos h < length pool \<and> pool ! pos h = x" unfolding slots_def by fastforce
  qed
  moreover have "inj_on pos (fst ` set (assignedItems s))" using assms by (simp add: slots_def)
  ultimately show ?thesis by blast
qed

lemma slots_distinct_values:
  assumes "slots pool s ps pos" "distinct pool" "h1 \<noteq> h2"
    "map_of (assignedItems s) h1 = Some x" "map_of (assignedItems s) h2 = Some y"
  shows "x \<noteq> y"
proof
  assume "x = y"
  from slots_positions [OF assms(1)] assms(4,5)
  have p: "pos h1 < length pool" "pool ! pos h1 = x" "pos h2 < length pool" "pool ! pos h2 = y"
    and inj: "inj_on pos (fst ` set (assignedItems s))" by blast+
  from p \<open>x = y\<close> assms(2) have "pos h1 = pos h2" by (metis nth_eq_iff_index_eq)
  moreover have "h1 \<in> fst ` set (assignedItems s)" "h2 \<in> fst ` set (assignedItems s)"
    using assms(4,5) by (force dest: map_of_SomeD)+
  ultimately have "h1 = h2" using inj by (meson inj_onD)
  with assms(3) show False by simp
qed

lemma slots_full:
  assumes "slots pool s ps pos" "length (assignedItems s) = length pool"
  shows "items s = []"
  using assms by (simp add: slots_def)

text \<open>
  C1. Let \<open>s\<close> be the state of a hasher created by \<open>stableHasher\<close> over
  \<open>pool\<close> after any sequence \<open>hs\<close> of calls.
  \<^item> A call with \<open>h\<close> and any later call with \<open>h\<close> return the same result; a
    result that is not \<open>null\<close> is the entry \<open>assignedItems\<close> keeps for \<open>h\<close>.
  \<^item> The hashes that hold an item are pairwise different and hold different items of the
    pool: there is an injective map \<open>pos\<close> from them to positions of the pool such
    that the item of \<open>h'\<close> is the pool's element at \<open>pos h'\<close>. In a pool without
    repeated values the items of two different hashes are therefore different values.
  \<^item> Once as many hashes hold an item as the pool has elements, a call with a hash that
    holds none returns \<open>null\<close> and changes nothing, and a call with a hash that holds
    one returns it.
\<close>

theorem stableHasher_assignment:
  fixes pool :: "'a list"
  assumes "s = calls (stableHasher pool) hs"
  shows
    "fst (assign (calls (snd (assign s h)) hs') h) = fst (assign s h) \<and>
     (\<forall>x. fst (assign s h) = Some x \<longrightarrow>
        map_of (assignedItems (snd (assign s h))) h = Some x) \<and>
     distinct (map fst (assignedItems s)) \<and>
     (\<exists>pos. inj_on pos (fst ` set (assignedItems s)) \<and>
        (\<forall>h' x. map_of (assignedItems s) h' = Some x \<longrightarrow>
           pos h' < length pool \<and> pool ! pos h' = x)) \<and>
     (distinct pool \<longrightarrow>
        (\<forall>h1 h2 x y. h1 \<noteq> h2 \<and> map_of (assignedItems s) h1 = Some x \<and>
           map_of (assignedItems s) h2 = Some y \<longrightarrow> x \<noteq> y)) \<and>
     (length (assignedItems s) = length pool \<longrightarrow>
        (map_of (assignedItems s) h = None \<longrightarrow> assign s h = (None, s)) \<and>
        (\<forall>x. map_of (assignedItems s) h = Some x \<longrightarrow> assign s h = (Some x, s)))"
proof -
  obtain ps pos where sl: "slots pool s ps pos"
    using slots_reachable [of pool hs] assms by blast
  have a: "fst (assign (calls (snd (assign s h)) hs') h) = fst (assign s h)"
    by (rule assign_stable)
  have b: "\<forall>x. fst (assign s h) = Some x \<longrightarrow>
        map_of (assignedItems (snd (assign s h))) h = Some x"
    by (simp add: assign_memo)
  have c: "distinct (map fst (assignedItems s))" using sl by (simp add: slots_def)
  have d: "\<exists>pos. inj_on pos (fst ` set (assignedItems s)) \<and>
        (\<forall>h' x. map_of (assignedItems s) h' = Some x \<longrightarrow>
           pos h' < length pool \<and> pool ! pos h' = x)"
    using slots_positions [OF sl] by blast
  have e: "distinct pool \<longrightarrow>
        (\<forall>h1 h2 x y. h1 \<noteq> h2 \<and> map_of (assignedItems s) h1 = Some x \<and>
           map_of (assignedItems s) h2 = Some y \<longrightarrow> x \<noteq> y)"
    using slots_distinct_values [OF sl] by blast
  have f: "length (assignedItems s) = length pool \<longrightarrow>
        (map_of (assignedItems s) h = None \<longrightarrow> assign s h = (None, s)) \<and>
        (\<forall>x. map_of (assignedItems s) h = Some x \<longrightarrow> assign s h = (Some x, s))"
    using slots_full [OF sl] by (simp add: assign_exhausted assign_known)
  from a b c d e f show ?thesis by blast
qed


theorem stableHasher_assignment_witness:
  "calls (stableHasher [10, 20, 30 :: int]) [Some 4, Some 7, None] =
     \<lparr>items = [], assignedItems = [(Some 4, 20), (Some 7, 30), (None, 10)]\<rparr> \<and>
   assign \<lparr>items = [], assignedItems = [(Some 4, 20), (Some 7, 30), (None, 10 :: int)]\<rparr> (Some 5) =
     (None, \<lparr>items = [], assignedItems = [(Some 4, 20), (Some 7, 30), (None, 10)]\<rparr>) \<and>
   assign \<lparr>items = [], assignedItems = [(Some 4, 20), (Some 7, 30), (None, 10 :: int)]\<rparr> (Some 7) =
     (Some 30, \<lparr>items = [], assignedItems = [(Some 4, 20), (Some 7, 30), (None, 10)]\<rparr>) \<and>
   (20 :: int) \<noteq> 30 \<and>
   map_of (assignedItems (snd (assign
       \<lparr>items = [], assignedItems = [(Some 4, 20), (Some 7, 30), (None, 10 :: int)]\<rparr> (Some 7))))
     (Some 7) = Some 30"
proof -
  let ?pool = "[10, 20, 30 :: int]"
  let ?hs = "[Some 4, Some 7, None :: int option]"
  let ?s = "\<lparr>items = [], assignedItems = [(Some 4, 20), (Some 7, 30), (None, 10 :: int)]\<rparr>"
  have run: "?s = calls (stableHasher ?pool) ?hs"
    by (simp add: stableHasher_def assign_def splice1_def spliceStart_def remainder_def)
  have full: "length (assignedItems ?s) = length ?pool" by simp
  have d: "distinct ?pool" by simp
  note spec5 = stableHasher_assignment [OF run, of "Some 5" "[]"]
  note spec7 = stableHasher_assignment [OF run, of "Some 7" "[]"]
  have n5: "map_of (assignedItems ?s) (Some 5) = None" by simp
  have s7: "map_of (assignedItems ?s) (Some 7) = Some 30" by simp
  have s4: "map_of (assignedItems ?s) (Some 4) = Some 20" by simp
  note full5 = spec5 [THEN conjunct2, THEN conjunct2, THEN conjunct2, THEN conjunct2,
      THEN conjunct2, rule_format, OF full]
  note full7 = spec7 [THEN conjunct2, THEN conjunct2, THEN conjunct2, THEN conjunct2,
      THEN conjunct2, rule_format, OF full]
  note vals = spec7 [THEN conjunct2, THEN conjunct2, THEN conjunct2, THEN conjunct2,
      THEN conjunct1, rule_format, OF d]
  have r5: "assign ?s (Some 5) = (None, ?s)" by (rule full5 [THEN conjunct1, rule_format, OF n5])
  have r7: "assign ?s (Some 7) = (Some 30, ?s)" by (rule full7 [THEN conjunct2, rule_format, OF s7])
  have ne: "(20 :: int) \<noteq> 30"
    by (rule vals [of "Some 4" "Some 7" 20 30]) (simp only: s4 s7, simp)
  have f7: "fst (assign ?s (Some 7)) = Some 30" by (simp only: r7 fst_conv)
  have m7: "map_of (assignedItems (snd (assign ?s (Some 7)))) (Some 7) = Some 30"
    by (rule spec7 [THEN conjunct2, THEN conjunct1, rule_format, OF f7])
  from run r5 r7 ne m7 show ?thesis by (simp only: simp_thms)
qed

subsection \<open>sortByPrecedence\<close>

lemma indexOf_notin: "x \<notin> set p \<Longrightarrow> indexOf p x = - 1"
  by (induction p) auto

lemma indexOf_in:
  "x \<in> set p \<Longrightarrow> indexOf p x = int (length (takeWhile (\<lambda>y. y \<noteq> x) p))"
proof (induction p)
  case Nil
  then show ?case by simp
next
  case (Cons y ys)
  show ?case
  proof (cases "y = x")
    case True
    then show ?thesis by simp
  next
    case False
    with Cons.prems have "x \<in> set ys" by simp
    with Cons.IH False show ?thesis by (simp add: Let_def)
  qed
qed

text \<open>
  C7, as the code has it. When both \<open>a\<close> and \<open>b\<close> occur in \<open>precedence\<close> the result
  is the first index of \<open>a\<close> minus the first index of \<open>b\<close>, so the one with the
  smaller index sorts first; when only \<open>a\<close> occurs it is \<open>-1\<close>, when only \<open>b\<close>
  occurs it is \<open>1\<close>; when neither occurs it is the host's comparison of \<open>String(a)\<close>
  and \<open>String(b)\<close>. With \<open>precedence = ["b", "a"]\<close>, comparing \<open>"a"\<close> with
  \<open>"b"\<close> gives \<open>1\<close> (\<open>"b"\<close> is listed first, so \<open>"a"\<close> sorts after it), and
  comparing \<open>"z"\<close> with \<open>"a"\<close> gives \<open>1\<close>.
\<close>

theorem sortByPrecedence_spec:
  "(a \<in> set p \<and> b \<in> set p \<longrightarrow>
      sortByPrecedence lc str p a b =
        int (length (takeWhile (\<lambda>y. y \<noteq> a) p)) - int (length (takeWhile (\<lambda>y. y \<noteq> b) p))) \<and>
   (a \<in> set p \<and> b \<notin> set p \<longrightarrow> sortByPrecedence lc str p a b = - 1) \<and>
   (a \<notin> set p \<and> b \<in> set p \<longrightarrow> sortByPrecedence lc str p a b = 1) \<and>
   (a \<notin> set p \<and> b \<notin> set p \<longrightarrow> sortByPrecedence lc str p a b = lc (str a) (str b)) \<and>
   sortByPrecedence lc id [js ''b'', js ''a''] (js ''a'') (js ''b'') = 1 \<and>
   sortByPrecedence lc id [js ''b'', js ''a''] (js ''z'') (js ''a'') = 1"
proof -
  have both: "a \<in> set p \<Longrightarrow> b \<in> set p \<Longrightarrow>
      sortByPrecedence lc str p a b =
        int (length (takeWhile (\<lambda>y. y \<noteq> a) p)) - int (length (takeWhile (\<lambda>y. y \<noteq> b) p))"
    by (simp add: sortByPrecedence_def indexOf_in Let_def)
  have onlya: "a \<in> set p \<Longrightarrow> b \<notin> set p \<Longrightarrow> sortByPrecedence lc str p a b = - 1"
    by (simp add: sortByPrecedence_def indexOf_in indexOf_notin Let_def)
  have onlyb: "a \<notin> set p \<Longrightarrow> b \<in> set p \<Longrightarrow> sortByPrecedence lc str p a b = 1"
    by (simp add: sortByPrecedence_def indexOf_in indexOf_notin Let_def)
  have neither: "a \<notin> set p \<Longrightarrow> b \<notin> set p \<Longrightarrow>
      sortByPrecedence lc str p a b = lc (str a) (str b)"
    by (simp add: sortByPrecedence_def indexOf_notin Let_def)
  have e1: "sortByPrecedence lc id [js ''b'', js ''a''] (js ''a'') (js ''b'') = 1"
    by (simp add: sortByPrecedence_def js_def)
  have e2: "sortByPrecedence lc id [js ''b'', js ''a''] (js ''z'') (js ''a'') = 1"
    by (simp add: sortByPrecedence_def js_def)
  from both onlya onlyb neither e1 e2 show ?thesis by blast
qed

theorem sortByPrecedence_spec_witness:
  "sortByPrecedence ordinalCompare id [js ''b'', js ''a''] (js ''a'') (js ''b'') = 1 - 0 \<and>
   sortByPrecedence ordinalCompare id [js ''b'', js ''a''] (js ''b'') (js ''z'') = - 1 \<and>
   sortByPrecedence ordinalCompare id [js ''b'', js ''a''] (js ''z'') (js ''a'') = 1 \<and>
   sortByPrecedence ordinalCompare id [js ''b'', js ''a''] (js ''y'') (js ''z'') = - 1"
proof -
  let ?p = "[js ''b'', js ''a'']"
  have m: "js ''a'' \<in> set ?p" "js ''b'' \<in> set ?p" "js ''z'' \<notin> set ?p" "js ''y'' \<notin> set ?p"
    by (simp_all add: js_def)
  have t: "int (length (takeWhile (\<lambda>y. y \<noteq> js ''a'') ?p)) = 1"
      "int (length (takeWhile (\<lambda>y. y \<noteq> js ''b'') ?p)) = 0"
    by (simp_all add: js_def)
  have c: "ordinalCompare (id (js ''y'')) (id (js ''z'')) = - 1"
    by (simp add: js_def)
  show ?thesis
    using sortByPrecedence_spec [of "js ''a''" ?p "js ''b''" ordinalCompare id]
      sortByPrecedence_spec [of "js ''b''" ?p "js ''z''" ordinalCompare id]
      sortByPrecedence_spec [of "js ''z''" ?p "js ''a''" ordinalCompare id]
      sortByPrecedence_spec [of "js ''y''" ?p "js ''z''" ordinalCompare id]
      m t c
    by simp
qed

text \<open>
  C7 as stated asks for a negative result of
  \<open>sortByPrecedence(["b", "a"], "a", "b")\<close>. Both values are listed, at indices
  \<open>1\<close> and \<open>0\<close>, and the result is \<open>1 - 0\<close>.
\<close>

theorem sortByPrecedence_example_counterexample:
  "\<not> sortByPrecedence ordinalCompare id [js ''b'', js ''a''] (js ''a'') (js ''b'') < 0"
  by (simp add: sortByPrecedence_def js_def)

section \<open>Properties of the traversal\<close>

lemma dfs_state:
  "snd (dfs fn n p s) = foldl (callback_step fn) s (visits n p)"
  "snd (dfs_children fn ns p s) = foldl (callback_step fn) s (visits_children ns p)"
proof (induction fn n p s and fn ns p s rule: dfs_dfs_children.induct)
  case (1 fn f cs fullId s)
  show ?case
  proof (cases cs)
    case None
    then show ?thesis by (simp add: callback_step_def case_prod_beta Let_def)
  next
    case (Some ch)
    with 1 show ?thesis
      by (simp add: callback_step_def case_prod_beta Let_def prod_eq_iff)
  qed
next
  case (2 fn fullId s)
  then show ?case by simp
next
  case (3 fn c cs fullId s)
  then show ?case by (simp add: case_prod_beta Let_def prod_eq_iff)
qed

lemma foldl_log: "foldl (callback_step logVisit) acc vs = acc @ vs"
  by (induction vs arbitrary: acc) (simp_all add: callback_step_def logVisit_def)

lemma dfs_log: "snd (dfs logVisit n p []) = visits n p"
  by (simp add: dfs_state foldl_log)

lemma visits_preorder:
  "map fst (visits n p) = preorder n"
  "map fst (visits_children ns p) = preorder_children ns"
  by (induction n p and ns p rule: visits_visits_children.induct)
     (auto simp add: Let_def split: option.splits)

lemma join_snoc: "xs \<noteq> [] \<Longrightarrow> join (xs @ [x]) = join xs @ js ''/'' @ x"
  by (induction xs rule: join.induct) simp_all

lemma join_nonempty: "xs \<noteq> [] \<Longrightarrow> hd xs \<noteq> [] \<Longrightarrow> join xs \<noteq> []"
  by (induction xs rule: join.induct) simp_all

lemma visits_spec:
  "anc \<noteq> [] \<Longrightarrow> hd anc \<noteq> [] \<Longrightarrow> visits n (join anc) = spec_paths anc n"
  "anc \<noteq> [] \<Longrightarrow> hd anc \<noteq> [] \<Longrightarrow> visits_children ns (join anc) = spec_paths_children anc ns"
proof (induction anc n and anc ns rule: spec_paths_spec_paths_children.induct)
  case (1 ancestors f cs)
  then have ne: "join ancestors \<noteq> []" by (simp add: join_nonempty)
  have j: "join (ancestors @ [nodeId f]) = join ancestors @ js ''/'' @ nodeId f"
    using 1(2) by (simp add: join_snoc)
  show ?case
  proof (cases cs)
    case None
    then show ?thesis using ne j by (simp add: Let_def)
  next
    case (Some ch)
    have "visits_children ch (join (ancestors @ [nodeId f])) = spec_paths_children (ancestors @ [nodeId f]) ch"
      using 1 Some by simp
    then show ?thesis using ne j Some by (simp add: Let_def)
  qed
next
  case (2 ancestors)
  then show ?case by simp
next
  case (3 ancestors c cs)
  then show ?case by simp
qed

lemma visits_root_spec:
  assumes "nodeId (props n) \<noteq> []"
  shows "visits n [] = spec_paths [] n"
proof (cases n)
  case (Node f cs)
  with assms have ne: "nodeId f \<noteq> []" by simp
  show ?thesis
  proof (cases cs)
    case None
    with Node show ?thesis by (simp add: Let_def)
  next
    case (Some ch)
    have "visits_children ch (join [nodeId f]) = spec_paths_children [nodeId f] ch"
      using ne by (intro visits_spec) simp_all
    with Node Some show ?thesis by (simp add: Let_def)
  qed
qed

text \<open>
  C8, as the code has it. \<open>dfs\<close> calls its callback once on every node of the tree,
  in pre-order (a node before its descendants, children in array order): whatever the
  callback, the state it leaves is the callback folded over \<open>visits\<close>, whose nodes are
  \<open>preorder root\<close>. The path \<open>dfs\<close> passes is computed before the call. It is the
  node's own id when the path of the parent is empty (so for the root, and below
  ancestors whose ids are all empty), and otherwise the parent's path, \<open>"/"\<close> and the
  node's id. When the root's id is not empty, this is the ancestors' ids and the node's
  own joined with \<open>"/"\<close>. The paths of the three-level chain are \<open>"root"\<close>,
  \<open>"root/child"\<close> and \<open>"root/child/grandchild"\<close>.
\<close>

theorem dfs_preorder_paths:
  "snd (dfs fn rootN [] s) = foldl (callback_step fn) s (visits rootN []) \<and>
   snd (dfs logVisit rootN [] []) = visits rootN [] \<and>
   map fst (visits rootN []) = preorder rootN \<and>
   (nodeId (props rootN) \<noteq> [] \<longrightarrow> visits rootN [] = spec_paths [] rootN) \<and>
   map snd (visits chain3 []) =
     [js ''root'', js ''root/child'', js ''root/child/grandchild'']"
proof -
  have e: "map snd (visits chain3 []) =
     [js ''root'', js ''root/child'', js ''root/child/grandchild'']"
    by (simp add: chain3_def dataNode_def js_def Let_def)
  show ?thesis
    using dfs_state(1) [of fn rootN "[]" s] dfs_log [of rootN "[]"]
      visits_preorder(1) [of rootN "[]"] visits_root_spec [of rootN] e
    by simp
qed

theorem dfs_preorder_paths_witness:
  "snd (dfs logVisit chain3 [] []) = spec_paths [] chain3 \<and>
   map fst (snd (dfs logVisit chain3 [] [])) = preorder chain3"
proof -
  have ne: "nodeId (props chain3) \<noteq> []"
    by (simp add: chain3_def dataNode_def js_def)
  note t = dfs_preorder_paths [of logVisit chain3 "[]"]
  from t have a: "snd (dfs logVisit chain3 [] []) = visits chain3 []" by blast
  from t have b: "map fst (visits chain3 []) = preorder chain3" by blast
  from t ne have c: "visits chain3 [] = spec_paths [] chain3" by blast
  from a c have 1: "snd (dfs logVisit chain3 [] []) = spec_paths [] chain3" by simp
  from a b have 2: "map fst (snd (dfs logVisit chain3 [] [])) = preorder chain3" by simp
  from 1 2 show ?thesis by blast
qed

text \<open>
  C8 as stated makes the path of every node its ancestors' ids and its own joined with
  \<open>"/"\<close>. Below a root whose id is the empty string the code passes \<open>"c"\<close> for the
  child \<open>c\<close>, where the join is \<open>"/c"\<close>: \<open>fullId ? ... : node.id\<close> takes an empty
  path of the parent for no path at all.
\<close>

theorem dfs_paths_counterexample:
  "map snd (snd (dfs logVisit emptyRoot [] [])) = [js '''', js ''c''] \<and>
   map snd (spec_paths [] emptyRoot) = [js '''', js ''/c'']"
  by (simp add: emptyRoot_def dataNode_def logVisit_def js_def Let_def)

section \<open>Properties of createViewModes\<close>

lemma unused_step:
  "callback_step unusedVisit acc v =
     (if unusedLeaf (fst v)
      then (fst acc + wastedBytes (props (fst v)), snd acc @ [nodeId (props (fst v))])
      else acc)"
  by (auto simp: callback_step_def unusedVisit_def unusedLeaf_def)

lemma unused_fold:
  "foldl (callback_step unusedVisit) acc vs =
     (fst acc + sum_list (map (\<lambda>n. wastedBytes (props n)) (filter unusedLeaf (map fst vs))),
      snd acc @ map (\<lambda>n. nodeId (props n)) (filter unusedLeaf (map fst vs)))"
proof (induction vs arbitrary: acc)
  case Nil
  then show ?case by simp
next
  case (Cons v vs)
  let ?F = "callback_step unusedVisit"
  have "foldl ?F acc (v # vs) = foldl ?F (?F acc v) vs" by simp
  also have "\<dots> =
     (fst (?F acc v) + sum_list (map (\<lambda>n. wastedBytes (props n)) (filter unusedLeaf (map fst vs))),
      snd (?F acc v) @ map (\<lambda>n. nodeId (props n)) (filter unusedLeaf (map fst vs)))"
    by (rule Cons.IH)
  also have "\<dots> =
     (fst acc + sum_list (map (\<lambda>n. wastedBytes (props n)) (filter unusedLeaf (map fst (v # vs)))),
      snd acc @ map (\<lambda>n. nodeId (props n)) (filter unusedLeaf (map fst (v # vs))))"
    by (cases "unusedLeaf (fst v)") (simp_all add: unused_step add.assoc)
  finally show ?case .
qed

lemma unused_roots:
  "visitRoots False unusedVisit rs acc =
     (fst acc + sum_list (map (\<lambda>n. wastedBytes (props n))
         (filter unusedLeaf (concat (map (\<lambda>r. preorder (rootNode_node r)) rs)))),
      snd acc @ map (\<lambda>n. nodeId (props n))
         (filter unusedLeaf (concat (map (\<lambda>r. preorder (rootNode_node r)) rs))))"
proof (induction rs arbitrary: acc)
  case Nil
  then show ?case by (simp add: visitRoots_def)
next
  case (Cons r rs)
  have step: "visitRoots False unusedVisit (r # rs) acc =
      visitRoots False unusedVisit rs (snd (dfs unusedVisit (rootNode_node r) [] acc))"
    by (simp add: visitRoots_def)
  show ?case
    by (simp add: step Cons.IH dfs_state unused_fold visits_preorder add.assoc)
qed

lemma unused_sum_nonneg:
  "0 \<le> sum_list (map (\<lambda>n. wastedBytes (props n)) (filter unusedLeaf ns))"
  by (induction ns) (auto simp: unusedLeaf_def)


lemma spec_unused_leaves_eq:
  "spec_unused_leaves rs = filter unusedLeaf (concat (map (\<lambda>r. preorder (rootNode_node r)) rs))"
  by (simp add: spec_unused_leaves_def unusedLeaf_def [abs_def])

lemma unused_visit_spec:
  "visitRoots False unusedVisit rs (0, []) =
     (spec_unused_total rs, map (\<lambda>n. nodeId (props n)) (spec_unused_leaves rs))"
  by (simp add: unused_roots spec_unused_total_def spec_unused_leaves_eq)

lemma spec_unused_total_nonneg: "0 \<le> spec_unused_total rs"
  by (simp add: spec_unused_total_def spec_unused_leaves_eq unused_sum_nonneg)

lemma unusedView_eq:
  "unusedView rs m =
     (if spec_unused_total rs > 0 then
        [makeViewMode m (js ''unused-js'')
           (js ''Unused JS ('' @ formatBytes (spec_unused_total rs) @ js '')'') WastedBytes
           (Some (map (\<lambda>n. nodeId (props n)) (spec_unused_leaves rs)))]
      else [])"
  using spec_unused_total_nonneg [of rs]
  by (simp add: unusedView_def unused_visit_spec)

text \<open>
  C4. The "Unused JS" block of \<open>createViewModes\<close> sums \<open>wastedBytes\<close> over exactly
  the nodes without \<open>children\<close> whose \<open>wastedBytes\<close> is at least \<open>51200\<close>, and
  collects their ids, in traversal order, as the highlight set. It appends its view
  mode if and only if the sum is greater than zero; the mode is then labelled with the
  formatted sum, partitions by \<open>wastedBytes\<close> and carries the highlight set. A single
  leaf with \<open>wastedBytes = 60 * 1024\<close> yields the mode labelled
  \<open>"Unused JS (60 KB)"\<close>; a single leaf with \<open>wastedBytes = 10 * 1024\<close> yields none.
\<close>

theorem unusedView_spec:
  "visitRoots False unusedVisit rootNodes (0, []) =
     (spec_unused_total rootNodes,
      map (\<lambda>n. nodeId (props n)) (spec_unused_leaves rootNodes)) \<and>
   (unusedView rootNodes m \<noteq> [] \<longleftrightarrow> spec_unused_total rootNodes > 0) \<and>
   (spec_unused_total rootNodes > 0 \<longrightarrow>
      unusedView rootNodes m =
        [makeViewMode m (js ''unused-js'')
           (js ''Unused JS ('' @ formatBytes (spec_unused_total rootNodes) @ js '')'')
           WastedBytes
           (Some (map (\<lambda>n. nodeId (props n)) (spec_unused_leaves rootNodes)))]) \<and>
   (\<exists>before after.
      createViewModes rootNodes m = before @ unusedView rootNodes m @ after) \<and>
   map innerText (unusedView (unusedExample (60 * 1024)) m) = [js ''Unused JS (60 KB)''] \<and>
   unusedView (unusedExample (10 * 1024)) m = []"
proof -
  have a: "visitRoots False unusedVisit rootNodes (0, []) =
     (spec_unused_total rootNodes,
      map (\<lambda>n. nodeId (props n)) (spec_unused_leaves rootNodes))"
    by (rule unused_visit_spec)
  have b: "unusedView rootNodes m \<noteq> [] \<longleftrightarrow> spec_unused_total rootNodes > 0"
    by (simp add: unusedView_eq)
  have c: "spec_unused_total rootNodes > 0 \<longrightarrow>
      unusedView rootNodes m =
        [makeViewMode m (js ''unused-js'')
           (js ''Unused JS ('' @ formatBytes (spec_unused_total rootNodes) @ js '')'')
           WastedBytes
           (Some (map (\<lambda>n. nodeId (props n)) (spec_unused_leaves rootNodes)))]"
    by (simp add: unusedView_eq)
  have d: "\<exists>before after.
      createViewModes rootNodes m = before @ unusedView rootNodes m @ after"
    unfolding createViewModes_def by blast
  have t60: "spec_unused_total (unusedExample 61440) = 61440"
    by (simp add: spec_unused_total_def spec_unused_leaves_def unusedExample_def dataNode_def)
  have f60: "js ''Unused JS ('' @ formatBytes 61440 @ js '')'' = js ''Unused JS (60 KB)''"
    by code_simp
  have e: "map innerText (unusedView (unusedExample (60 * 1024)) m) = [js ''Unused JS (60 KB)'']"
    by (simp add: unusedView_eq t60 f60 makeViewMode_def Let_def)
  have t10: "spec_unused_total (unusedExample 10240) = 0"
    by (simp add: spec_unused_total_def spec_unused_leaves_def unusedExample_def dataNode_def)
  have f: "unusedView (unusedExample (10 * 1024)) m = []"
    by (simp add: unusedView_eq t10)
  from a b c d e f show ?thesis by blast
qed

theorem unusedView_spec_witness:
  "spec_unused_total (unusedExample 61440) = 61440 \<and>
   unusedView (unusedExample 61440) exampleMode =
     [makeViewMode exampleMode (js ''unused-js'')
        (js ''Unused JS ('' @ formatBytes 61440 @ js '')'') WastedBytes
        (Some [js ''a.js''])]"
proof -
  have t: "spec_unused_total (unusedExample 61440) = 61440"
    by (simp add: spec_unused_total_def spec_unused_leaves_def unusedExample_def dataNode_def)
  have l: "map (\<lambda>n. nodeId (props n)) (spec_unused_leaves (unusedExample 61440)) = [js ''a.js'']"
    by (simp add: spec_unused_leaves_def unusedExample_def dataNode_def)
  have pos: "spec_unused_total (unusedExample 61440) > 0" by (simp add: t)
  from unusedView_spec [of "unusedExample 61440" exampleMode] pos
  have "unusedView (unusedExample 61440) exampleMode =
        [makeViewMode exampleMode (js ''unused-js'')
           (js ''Unused JS ('' @ formatBytes (spec_unused_total (unusedExample 61440)) @ js '')'')
           WastedBytes
           (Some (map (\<lambda>n. nodeId (props n)) (spec_unused_leaves (unusedExample 61440))))]"
    by blast
  with t l show ?thesis by simp
qed

section \<open>Properties of show\<close>

lemma updateColors_error: "updateColors v = Inl e \<Longrightarrow> e = TypeError"
  by (auto simp: updateColors_def case_prod_beta split: option.splits)

lemma render_error: "render lib v = Inl e \<Longrightarrow> e = TypeError"
  by (auto simp: render_def split: treemapRef.splits dest: updateColors_error)

lemma setTitle_error: "setTitle v = Inl e \<Longrightarrow> e = TypeError"
  by (auto simp: setTitle_def Let_def split: option.splits)

lemma createViewModesIn_error: "createViewModesIn els rs m = Inl e \<Longrightarrow> \<exists>q. e = QueryNotFound q"
  by (auto simp: createViewModesIn_def Util_find_def split: option.splits if_splits)

lemma createTable_error: "createTable els rs = Inl e \<Longrightarrow> \<exists>q. e = QueryNotFound q"
  by (auto simp: createTable_def Util_find_def split: option.splits if_splits)

lemma showResolved_error:
  assumes "fst (showResolved lib v m rs) = Some e"
  shows "e = TypeError \<or> (\<exists>q. e = QueryNotFound q)"
proof (cases "createViewModesIn (elements v) rs m")
  case (Inl e1)
  with assms show ?thesis
    by (auto simp: showResolved_def dest: createViewModesIn_error)
next
  case (Inr panel)
  note p = this
  show ?thesis
  proof (cases "createTable (elements v) rs")
    case (Inl e2)
    with assms p show ?thesis
      by (auto simp: showResolved_def Let_def dest: createTable_error)
  next
    case (Inr table)
    with assms p show ?thesis
      by (auto simp: showResolved_def Let_def split: option.splits sum.splits
            dest: setTitle_error render_error)
  qed
qed

lemma findRootNode_None:
  "findRootNode v i = None \<longleftrightarrow> (\<forall>r\<in>set (concat (map snd (treemapData v))). rootId r \<noteq> i)"
  by (auto simp add: findRootNode_def find_None_iff)


lemma js_rootNodeId_group:
  "js ''rootNodeId'' \<noteq> js ''group''" "js ''group'' \<noteq> js ''rootNodeId''"
  by (simp_all add: js_def)

lemma selector_storedMode [simp]: "selector (storedMode m) = selector m"
  by (simp add: storedMode_def)

lemma showMode_unfold:
  assumes "''.partition-selector'' \<in> set (elements v)"
  shows "showMode lib v m =
     (let sm = storedMode m;
          v2 = v\<lparr>mode := sm, partitionSelectorValue := partitionBy sm\<rparr>
      in if selectorType (selector m) = js ''group'' then
           (case map_of (treemapData v) (selectorValue (selector m)) of
              None \<Rightarrow> (Some TypeError, v2)
            | Some rootNodes \<Rightarrow>
                showResolved lib
                  (setCurrentRootNode (groupRoot (documentUrl v) (map wrapRootNode rootNodes)) v2)
                  sm rootNodes)
         else if selectorType (selector m) = js ''rootNodeId'' then
           (case findRootNode v (selectorValue (selector m)) of
              None \<Rightarrow> (Some UnknownRootNode, v2)
            | Some rootNode \<Rightarrow>
                showResolved lib (setCurrentRootNode (rootNode_node rootNode) v2) sm [rootNode])
         else (Some InvalidModeSelector, v2))"
proof -
  have f: "findRootNode (v\<lparr>mode := m', partitionSelectorValue := p\<rparr>) i = findRootNode v i" for m' p i
    by (simp add: findRootNode_def)
  show ?thesis
  proof (cases "partitionBy m = None")
    case True
    then show ?thesis using assms
      by (simp add: showMode_def storedMode_def Util_find_def Let_def f js_rootNodeId_group
            split: option.splits)
  next
    case False
    then show ?thesis using assms
      by (simp add: showMode_def storedMode_def Util_find_def Let_def f js_rootNodeId_group
            split: option.splits)
  qed
qed

lemma show_invalid:
  assumes "''.partition-selector'' \<in> set (elements v)"
    "selectorType (selector m) \<noteq> js ''group''"
    "selectorType (selector m) \<noteq> js ''rootNodeId''"
  shows "showMode lib v m =
     (Some InvalidModeSelector,
      v\<lparr>mode := storedMode m, partitionSelectorValue := partitionBy (storedMode m)\<rparr>)"
  using assms by (simp add: showMode_unfold Let_def)

lemma show_unknown:
  assumes "''.partition-selector'' \<in> set (elements v)"
    "selectorType (selector m) = js ''rootNodeId''"
    "findRootNode v (selectorValue (selector m)) = None"
  shows "showMode lib v m =
     (Some UnknownRootNode,
      v\<lparr>mode := storedMode m, partitionSelectorValue := partitionBy (storedMode m)\<rparr>)"
  using assms js_rootNodeId_group by (simp add: showMode_unfold Let_def)

lemma show_known:
  assumes "''.partition-selector'' \<in> set (elements v)"
    "selectorType (selector m) = js ''rootNodeId''"
    "findRootNode v (selectorValue (selector m)) = Some r"
  shows "fst (showMode lib v m) \<noteq> Some UnknownRootNode"
proof -
  obtain v' m' where "showMode lib v m = showResolved lib v' m' [r]"
    using assms js_rootNodeId_group by (simp add: showMode_unfold Let_def)
  then show ?thesis using showResolved_error [of lib v' m' "[r]" UnknownRootNode] by auto
qed

lemma show_group_unknown:
  assumes "''.partition-selector'' \<in> set (elements v)"
    "selectorType (selector m) = js ''group''"
    "selectorValue (selector m) \<notin> fst ` set (treemapData v)"
  shows "showMode lib v m =
     (Some TypeError,
      v\<lparr>mode := storedMode m, partitionSelectorValue := partitionBy (storedMode m)\<rparr>)"
proof -
  have "map_of (treemapData v) (selectorValue (selector m)) = None"
    using assms(3) by (simp add: map_of_eq_None_iff)
  then show ?thesis
    using assms(1,2) by (simp add: showMode_unfold Let_def)
qed


lemma show_group_errors:
  assumes "''.partition-selector'' \<in> set (elements v)"
    "selectorType (selector m) = js ''group''"
  shows "fst (showMode lib v m) \<noteq> Some InvalidModeSelector \<and>
         fst (showMode lib v m) \<noteq> Some UnknownRootNode"
proof (cases "map_of (treemapData v) (selectorValue (selector m))")
  case None
  with assms show ?thesis by (simp add: showMode_unfold Let_def)
next
  case (Some rs)
  then obtain v' m' where "showMode lib v m = showResolved lib v' m' rs"
    using assms by (simp add: showMode_unfold Let_def)
  then show ?thesis
    using showResolved_error [of lib v' m' rs InvalidModeSelector]
      showResolved_error [of lib v' m' rs UnknownRootNode] by auto
qed

lemma show_known_errors:
  assumes "''.partition-selector'' \<in> set (elements v)"
    "selectorType (selector m) = js ''rootNodeId''"
    "findRootNode v (selectorValue (selector m)) = Some r"
  shows "fst (showMode lib v m) \<noteq> Some InvalidModeSelector \<and>
         fst (showMode lib v m) \<noteq> Some UnknownRootNode"
proof -
  obtain v' m' where "showMode lib v m = showResolved lib v' m' [r]"
    using assms js_rootNodeId_group by (simp add: showMode_unfold Let_def)
  then show ?thesis
    using showResolved_error [of lib v' m' "[r]" InvalidModeSelector]
      showResolved_error [of lib v' m' "[r]" UnknownRootNode] by auto
qed

lemma show_failure_state:
  assumes page: "''.partition-selector'' \<in> set (elements v)"
    and err: "fst (showMode lib v m) = Some InvalidModeSelector \<or>
              fst (showMode lib v m) = Some UnknownRootNode"
  shows "snd (showMode lib v m) =
     v\<lparr>mode := storedMode m, partitionSelectorValue := partitionBy (storedMode m)\<rparr>"
proof (cases "selectorType (selector m) = js ''group''")
  case True
  with show_group_errors [OF page True, of lib] err show ?thesis by simp
next
  case False
  note ng = this
  show ?thesis
  proof (cases "selectorType (selector m) = js ''rootNodeId''")
    case True
    show ?thesis
    proof (cases "findRootNode v (selectorValue (selector m))")
      case None
      then show ?thesis using show_unknown [OF page True None, of lib] by simp
    next
      case (Some r)
      with show_known_errors [OF page True Some, of lib] err show ?thesis by simp
    qed
  next
    case False
    then show ?thesis using show_invalid [OF page ng False, of lib] by simp
  qed
qed

text \<open>
  C3, on a page that has the element \<open>.partition-selector\<close> (\<open>show\<close> looks it up
  first, and \<open>Util.find\<close> throws when it is missing). For every mode whose
  \<open>selector.type\<close> is neither \<open>"group"\<close> nor \<open>"rootNodeId"\<close>, \<open>show\<close> fails with
  the error \<open>invalid mode selector\<close>. For \<open>selector.type = "rootNodeId"\<close> it fails
  with \<open>unknown root node\<close> exactly when no root node of \<open>treemapData\<close> has the
  selector's value as its id. After either failure the viewer is as before except for
  \<open>this.mode\<close> and the value of the partition selector, which \<open>show\<close> sets first:
  \<open>currentRootNode\<close>, the treemap, the two panels and the hue assignment are unchanged.
\<close>

theorem show_selector_errors:
  assumes "''.partition-selector'' \<in> set (elements v)"
  shows
    "(selectorType (selector m) \<noteq> js ''group'' \<and> selectorType (selector m) \<noteq> js ''rootNodeId'' \<longrightarrow>
        fst (showMode lib v m) = Some InvalidModeSelector) \<and>
     (selectorType (selector m) = js ''rootNodeId'' \<longrightarrow>
        (fst (showMode lib v m) = Some UnknownRootNode \<longleftrightarrow>
           (\<forall>r\<in>set (concat (map snd (treemapData v))). rootId r \<noteq> selectorValue (selector m)))) \<and>
     (fst (showMode lib v m) = Some InvalidModeSelector \<or>
      fst (showMode lib v m) = Some UnknownRootNode \<longrightarrow>
        snd (showMode lib v m) =
          v\<lparr>mode := storedMode m, partitionSelectorValue := partitionBy (storedMode m)\<rparr> \<and>
        currentRootNode (snd (showMode lib v m)) = currentRootNode v \<and>
        treemap (snd (showMode lib v m)) = treemap v \<and>
        viewModesPanel (snd (showMode lib v m)) = viewModesPanel v \<and>
        gridPanel (snd (showMode lib v m)) = gridPanel v \<and>
        getHue (snd (showMode lib v m)) = getHue v)"
proof -
  have a: "selectorType (selector m) \<noteq> js ''group'' \<and> selectorType (selector m) \<noteq> js ''rootNodeId'' \<longrightarrow>
        fst (showMode lib v m) = Some InvalidModeSelector"
    using show_invalid [OF assms, of m lib] by simp
  have b: "selectorType (selector m) = js ''rootNodeId'' \<longrightarrow>
        (fst (showMode lib v m) = Some UnknownRootNode \<longleftrightarrow>
           (\<forall>r\<in>set (concat (map snd (treemapData v))). rootId r \<noteq> selectorValue (selector m)))"
  proof
    assume t: "selectorType (selector m) = js ''rootNodeId''"
    show "fst (showMode lib v m) = Some UnknownRootNode \<longleftrightarrow>
           (\<forall>r\<in>set (concat (map snd (treemapData v))). rootId r \<noteq> selectorValue (selector m))"
    proof (cases "findRootNode v (selectorValue (selector m))")
      case None
      then show ?thesis
        using show_unknown [OF assms t None, of lib] findRootNode_None [of v "selectorValue (selector m)"]
        by simp
    next
      case (Some r)
      then show ?thesis
        using show_known [OF assms t Some, of lib] findRootNode_None [of v "selectorValue (selector m)"]
        by simp
    qed
  qed
  have c: "fst (showMode lib v m) = Some InvalidModeSelector \<or>
      fst (showMode lib v m) = Some UnknownRootNode \<longrightarrow>
        snd (showMode lib v m) =
          v\<lparr>mode := storedMode m, partitionSelectorValue := partitionBy (storedMode m)\<rparr> \<and>
        currentRootNode (snd (showMode lib v m)) = currentRootNode v \<and>
        treemap (snd (showMode lib v m)) = treemap v \<and>
        viewModesPanel (snd (showMode lib v m)) = viewModesPanel v \<and>
        gridPanel (snd (showMode lib v m)) = gridPanel v \<and>
        getHue (snd (showMode lib v m)) = getHue v"
    using show_failure_state [OF assms, of lib m] by auto
  from a b c show ?thesis by blast
qed

lemma exampleViewer_built: "TreemapViewer exampleOptions appPage = Inr exampleViewer"
  by (simp add: exampleViewer_def TreemapViewer_def exampleOptions_def)

lemma exampleViewer_page: "''.partition-selector'' \<in> set (elements exampleViewer)"
  by (simp add: exampleViewer_def TreemapViewer_def exampleOptions_def appPage_def)

lemma exampleViewer_roots:
  "map rootId (concat (map snd (treemapData exampleViewer))) = [js ''bundle.js'']"
  by (simp add: exampleViewer_def TreemapViewer_def exampleOptions_def stampRootNode_def
      exampleBundle_def Let_def)

lemma exampleViewer_groups: "map fst (treemapData exampleViewer) = [js ''scripts'']"
  by (simp add: exampleViewer_def TreemapViewer_def exampleOptions_def)

theorem show_selector_errors_witness:
  "fst (showMode specLayout exampleViewer
      (exampleMode\<lparr>selector := \<lparr>selectorType = js ''url'', selectorValue = js ''bundle.js'',
         viewId = None\<rparr>\<rparr>)) = Some InvalidModeSelector \<and>
   fst (showMode specLayout exampleViewer
      (exampleMode\<lparr>selector := \<lparr>selectorType = js ''rootNodeId'', selectorValue = js ''other.js'',
         viewId = None\<rparr>\<rparr>)) = Some UnknownRootNode \<and>
   fst (showMode specLayout exampleViewer exampleMode) \<noteq> Some UnknownRootNode \<and>
   currentRootNode (snd (showMode specLayout exampleViewer
      (exampleMode\<lparr>selector := \<lparr>selectorType = js ''rootNodeId'', selectorValue = js ''other.js'',
         viewId = None\<rparr>\<rparr>))) = currentRootNode exampleViewer"
proof -
  let ?bad = "exampleMode\<lparr>selector := \<lparr>selectorType = js ''url'', selectorValue = js ''bundle.js'',
         viewId = None\<rparr>\<rparr>"
  let ?other = "exampleMode\<lparr>selector := \<lparr>selectorType = js ''rootNodeId'', selectorValue = js ''other.js'',
         viewId = None\<rparr>\<rparr>"
  have t1: "selectorType (selector ?bad) \<noteq> js ''group'' \<and> selectorType (selector ?bad) \<noteq> js ''rootNodeId''"
    by (simp add: js_def)
  have t2: "selectorType (selector ?other) = js ''rootNodeId''" by simp
  have t3: "selectorType (selector exampleMode) = js ''rootNodeId''" by (simp add: exampleMode_def)
  have ids: "set (concat (map snd (treemapData exampleViewer))) = R \<Longrightarrow>
      (\<forall>r\<in>R. rootId r \<noteq> i) \<longleftrightarrow> i \<notin> set (map rootId (concat (map snd (treemapData exampleViewer))))" for R i
    by auto
  have n2: "\<forall>r\<in>set (concat (map snd (treemapData exampleViewer))). rootId r \<noteq> selectorValue (selector ?other)"
    using exampleViewer_roots ids [OF refl, of "js ''other.js''"] by (simp add: js_def)
  have n3: "\<not> (\<forall>r\<in>set (concat (map snd (treemapData exampleViewer))). rootId r \<noteq> selectorValue (selector exampleMode))"
    using exampleViewer_roots ids [OF refl, of "js ''bundle.js''"] by (simp add: exampleMode_def)
  note s1 = show_selector_errors [OF exampleViewer_page, of ?bad specLayout]
  note s2 = show_selector_errors [OF exampleViewer_page, of ?other specLayout]
  note s3 = show_selector_errors [OF exampleViewer_page, of exampleMode specLayout]
  from s1 t1 have r1: "fst (showMode specLayout exampleViewer ?bad) = Some InvalidModeSelector" by blast
  from s2 t2 n2 have r2: "fst (showMode specLayout exampleViewer ?other) = Some UnknownRootNode" by blast
  from s3 t3 n3 have r3: "fst (showMode specLayout exampleViewer exampleMode) \<noteq> Some UnknownRootNode" by blast
  from s2 r2 have r4: "currentRootNode (snd (showMode specLayout exampleViewer ?other)) = currentRootNode exampleViewer"
    by blast
  from r1 r2 r3 r4 show ?thesis by blast
qed

text \<open>
  C9, on a page that has the element \<open>.partition-selector\<close>. For every mode whose
  \<open>selector.type\<close> is \<open>"group"\<close> and whose selector value is not a key of
  \<open>treemapData\<close>, \<open>show\<close> raises neither \<open>invalid mode selector\<close> nor
  \<open>unknown root node\<close>: the lookup yields \<open>undefined\<close> and \<open>rootNodes.map\<close> throws a
  \<open>TypeError\<close>, after \<open>this.mode\<close> and the partition selector have been set and
  before anything else is.
\<close>

theorem show_missing_group:
  assumes "''.partition-selector'' \<in> set (elements v)"
    and "selectorType (selector m) = js ''group''"
    and "selectorValue (selector m) \<notin> fst ` set (treemapData v)"
  shows "showMode lib v m =
           (Some TypeError,
            v\<lparr>mode := storedMode m, partitionSelectorValue := partitionBy (storedMode m)\<rparr>) \<and>
         fst (showMode lib v m) \<noteq> Some InvalidModeSelector \<and>
         fst (showMode lib v m) \<noteq> Some UnknownRootNode"
  using show_group_unknown [OF assms, of lib] by simp

theorem show_missing_group_witness:
  "fst (showMode specLayout exampleViewer
      (exampleMode\<lparr>selector := \<lparr>selectorType = js ''group'', selectorValue = js ''styles'',
         viewId = None\<rparr>\<rparr>)) = Some TypeError"
proof -
  let ?m = "exampleMode\<lparr>selector := \<lparr>selectorType = js ''group'', selectorValue = js ''styles'',
         viewId = None\<rparr>\<rparr>"
  have t: "selectorType (selector ?m) = js ''group''" by simp
  have "fst ` set (treemapData exampleViewer) = set (map fst (treemapData exampleViewer))" by simp
  then have k: "selectorValue (selector ?m) \<notin> fst ` set (treemapData exampleViewer)"
    by (simp only: exampleViewer_groups) (simp add: js_def)
  from show_missing_group [OF exampleViewer_page t k, of specLayout] show ?thesis by simp
qed

section \<open>Properties of setTitle\<close>

lemma pct: "percent (Some 100) (Some 400) = js ''25''" "percent (Some 300) (Some 400) = js ''75''"
  "percent (Some 400) (Some 400) = js ''100''"
  by code_simp+

lemma fb: "formatBytes 100 = js ''100 B''" "formatBytes 300 = js ''300 B''" "formatBytes 400 = js ''400 B''"
  by code_simp+

lemma example_titles: "titles exampleShown =
   [(js ''bundle.js'', js ''bundle.js '' @ [bullet] @ js '' bytes: 400 B (100%)''),
    (js ''b.js'', js ''b.js '' @ [bullet] @ js '' 300 B (75%)''),
    (js ''a.js'', js ''a.js '' @ [bullet] @ js '' 100 B (25%)'')]"
  by (simp add: titles_def exampleShown_def showMode_def exampleViewer_def TreemapViewer_def
      exampleOptions_def exampleMode_def exampleBundle_def dataNode_def appPage_def
      Util_find_def findRootNode_def stampRootNode_def setOriginalId_def setIdHash_def
      idHashOf_def showResolved_def createViewModesIn_def createTable_def
      setCurrentRootNode_def setSize_def metricOrBytes_def metricValue_def specLayout_def
      setTitle_def titleVisit_def titleOf_def format_def elide_def metricName_def
      render_def updateColors_def colorVisit_def assign_def splice1_def spliceStart_def
      remainder_def stableHasher_def COLOR_HUES_def hsl_def
      pct fb Let_def js_def bullet_def)


lemma titleVisit_dfs:
  "fst (dfs (titleVisit p tot) n path b) = relabel (titleOf p tot) b n \<and>
   snd (dfs (titleVisit p tot) n path b) = False"
  "b = False \<longrightarrow>
   fst (dfs_children (titleVisit p tot) ns path b) = map (relabel (titleOf p tot) False) ns \<and>
   snd (dfs_children (titleVisit p tot) ns path b) = False"
proof (induction "titleVisit p tot" n path b and "titleVisit p tot" ns path b
       rule: dfs_dfs_children.induct)
  case (1 f cs fullId s)
  show ?case
  proof (cases cs)
    case None
    then show ?thesis by (simp add: titleVisit_def Let_def)
  next
    case (Some ch)
    let ?p = "if fullId \<noteq> [] then fullId @ js ''/'' @ nodeId f else nodeId f"
    have st: "titleVisit p tot s (Node f cs) ?p = (f\<lparr>nodeId := titleOf p tot s f\<rparr>, False)"
      by (simp add: titleVisit_def)
    from 1 [OF refl st [symmetric] refl Some]
    have ih: "fst (dfs_children (titleVisit p tot) ch ?p False) = map (relabel (titleOf p tot) False) ch \<and>
       snd (dfs_children (titleVisit p tot) ch ?p False) = False"
      by simp
    show ?thesis using Some ih st
      by (simp add: Let_def case_prod_beta)
  qed
next
  case (2 fullId s)
  then show ?case by simp
next
  case (3 c cs fullId s)
  show ?case
  proof
    assume s: "s = False"
    have a: "fst (dfs (titleVisit p tot) c fullId s) = relabel (titleOf p tot) s c"
      and b: "snd (dfs (titleVisit p tot) c fullId s) = False"
      using 3(1) by simp_all
    have "fst (dfs_children (titleVisit p tot) cs fullId (snd (dfs (titleVisit p tot) c fullId s))) =
         map (relabel (titleOf p tot) False) cs \<and>
       snd (dfs_children (titleVisit p tot) cs fullId (snd (dfs (titleVisit p tot) c fullId s))) = False"
      using 3(2) [OF refl prod.collapse] b by simp
    then show "fst (dfs_children (titleVisit p tot) (c # cs) fullId s) =
         map (relabel (titleOf p tot) False) (c # cs) \<and>
       snd (dfs_children (titleVisit p tot) (c # cs) fullId s) = False"
      using a b s by (simp add: Let_def case_prod_beta)
  qed
qed


lemma titleOf_form:
  "titleOf p tot isRoot f =
     elide (originalId f) 60 @ [0x20, bullet, 0x20] @
     (case p of Some l \<Rightarrow> if isRoot then metricName l @ js '': '' else [] | None \<Rightarrow> []) @
     format (metricValue (metricOrBytes p) f)
       (if p = Some ExecutionTime then js ''time'' else js ''bytes'') @
     js '' ('' @ percent (metricValue (metricOrBytes p) f) tot @ js ''%)''"
  by (simp add: titleOf_def Let_def split: option.splits)

text \<open>
  C2, as the code has it. \<open>setTitle\<close> gives every node of the current tree the label
  \<open>elide(originalId, 60)\<close>, \<open>" \<bullet> "\<close> and \<open>"{formatted value} ({percent}%)"\<close>, where
  the value is the node's value of the active metric and \<open>percent\<close> is
  \<open>Math.round(value / total * 100)\<close> for the current root's value \<open>total\<close>; in the
  label of the root the metric's name and \<open>": "\<close> stand before the formatted value.
  For the bundle of \<open>400\<close> bytes with leaves of \<open>100\<close> and \<open>300\<close> bytes, shown by
  its root node id and partitioned by \<open>bytes\<close>, the labels of the leaves end in
  \<open>(25%)\<close> and \<open>(75%)\<close> and that of the root in \<open>(100%)\<close>.
\<close>

theorem setTitle_labels:
  assumes "currentRootNode v = Some r"
  shows
    "setTitle v =
       Inr (v\<lparr>currentRootNode :=
         Some (relabel
           (titleOf (partitionBy (mode v))
              (metricValue (metricOrBytes (partitionBy (mode v))) (props r)))
           True r)\<rparr>) \<and>
     (\<forall>p tot isRoot f.
        titleOf p tot isRoot f =
          elide (originalId f) 60 @ [0x20, bullet, 0x20] @
          (case p of Some l \<Rightarrow> if isRoot then metricName l @ js '': '' else [] | None \<Rightarrow> []) @
          format (metricValue (metricOrBytes p) f)
            (if p = Some ExecutionTime then js ''time'' else js ''bytes'') @
          js '' ('' @ percent (metricValue (metricOrBytes p) f) tot @ js ''%)'') \<and>
     titles exampleShown =
       [(js ''bundle.js'', js ''bundle.js '' @ [bullet] @ js '' bytes: 400 B (100%)''),
        (js ''b.js'', js ''b.js '' @ [bullet] @ js '' 300 B (75%)''),
        (js ''a.js'', js ''a.js '' @ [bullet] @ js '' 100 B (25%)'')]"
proof -
  have a: "setTitle v =
       Inr (v\<lparr>currentRootNode :=
         Some (relabel
           (titleOf (partitionBy (mode v))
              (metricValue (metricOrBytes (partitionBy (mode v))) (props r)))
           True r)\<rparr>)"
    using assms by (simp add: setTitle_def Let_def titleVisit_dfs(1))
  from a titleOf_form example_titles show ?thesis by blast
qed

theorem setTitle_labels_witness:
  "setTitle (exampleViewer\<lparr>currentRootNode := Some chain3\<rparr>) =
     Inr (exampleViewer\<lparr>currentRootNode :=
       Some (relabel (titleOf (Some Bytes) (Some 0)) True chain3)\<rparr>)"
proof -
  let ?v = "exampleViewer\<lparr>currentRootNode := Some chain3\<rparr>"
  have h: "currentRootNode ?v = Some chain3" by simp
  have m: "partitionBy (mode ?v) = Some Bytes"
    by (simp add: exampleViewer_def TreemapViewer_def exampleOptions_def exampleMode_def)
  have t: "metricValue (metricOrBytes (Some Bytes)) (props chain3) = Some 0"
    by (simp add: metricValue_def metricOrBytes_def chain3_def dataNode_def)
  from setTitle_labels [OF h] have "setTitle ?v =
       Inr (?v\<lparr>currentRootNode :=
         Some (relabel
           (titleOf (partitionBy (mode ?v))
              (metricValue (metricOrBytes (partitionBy (mode ?v))) (props chain3)))
           True chain3)\<rparr>)"
    by blast
  then show ?thesis by (simp only: m t) simp
qed

text \<open>
  C2 as stated has the label of the leaf of \<open>100\<close> bytes contain \<open>"33%"\<close>. The total
  is the root's \<open>400\<close> bytes, so the label is \<open>"a.js \<bullet> 100 B (25%)"\<close>, and the root's
  label has the metric's name before its value.
\<close>

theorem show_example_counterexample:
  "titles exampleShown =
     [(js ''bundle.js'', js ''bundle.js '' @ [bullet] @ js '' bytes: 400 B (100%)''),
      (js ''b.js'', js ''b.js '' @ [bullet] @ js '' 300 B (75%)''),
      (js ''a.js'', js ''a.js '' @ [bullet] @ js '' 100 B (25%)'')] \<and>
   \<not> contains (js ''a.js '' @ [bullet] @ js '' 100 B (25%)'') (js ''33%'')"
proof -
  have "\<not> contains (js ''a.js '' @ [bullet] @ js '' 100 B (25%)'') (js ''33%'')"
    by (simp add: js_def bullet_def)
  with example_titles show ?thesis by blast
qed

section \<open>Properties of updateColors\<close>

lemma hues: "COLOR_HUES = [78 / 19, 68940 / 203, 39900 / 137, 1308 / 5, 13620 / 59, 47880 / 241,
  9900 / 53, 872 / 5, 4040 / 33, 10620 / 121, 10680 / 163, 45, 608 / 17,
  3180 / 221, 780 / 49, 0, 8580 / 43]"
  by (simp add: COLOR_HUES_def hexHue_def hexDigit_def rgb2hue_def Let_def)

lemma calls_append: "calls g (a @ b) = calls (calls g a) b"
  by (induction a arbitrary: g) simp_all

lemma colorVisit_state:
  "snd (colorVisit m g n p) = g \<or> snd (colorVisit m g n p) = snd (assign g (idHash (props n)))"
  by (auto simp: colorVisit_def Let_def split: option.splits prod.splits)

lemma colorVisit_calls: "\<exists>hs. callback_step (colorVisit m) g v = calls g hs"
proof -
  from colorVisit_state [of m g "fst v" "snd v"]
  have "callback_step (colorVisit m) g v = calls g [] \<or>
        callback_step (colorVisit m) g v = calls g [idHash (props (fst v))]"
    by (simp add: callback_step_def)
  then show ?thesis by blast
qed

lemma colorFold_calls: "\<exists>hs. foldl (callback_step (colorVisit m)) g vs = calls g hs"
proof (induction vs arbitrary: g)
  case Nil
  have "foldl (callback_step (colorVisit m)) g [] = calls g []" by simp
  then show ?case by blast
next
  case (Cons v vs)
  obtain a where a: "callback_step (colorVisit m) g v = calls g a"
    using colorVisit_calls by blast
  obtain b where b: "foldl (callback_step (colorVisit m)) (calls g a) vs = calls (calls g a) b"
    using Cons.IH by blast
  have "foldl (callback_step (colorVisit m)) g (v # vs) = calls g (a @ b)"
    by (simp add: a b calls_append)
  then show ?case by blast
qed

lemma updateColors_calls:
  assumes "updateColors v = Inr v'"
  shows "\<exists>hs. getHue v' = calls (getHue v) hs"
proof (cases "currentRootNode v")
  case None
  with assms show ?thesis by (simp add: updateColors_def)
next
  case (Some r)
  with assms have "getHue v' = snd (dfs (colorVisit (mode v)) r [] (getHue v))"
    by (auto simp: updateColors_def case_prod_beta)
  then show ?thesis by (simp add: dfs_state colorFold_calls)
qed

lemma render_calls:
  assumes "render lib v = Inr v'"
  shows "\<exists>hs. getHue v' = calls (getHue v) hs"
proof (cases "treemap v")
  case NoTreemap
  with assms show ?thesis by (simp add: render_def)
next
  case TreemapOfCurrent
  with assms updateColors_calls [of "v\<lparr>currentRootNode := map_option (wt_render lib) (currentRootNode v)\<rparr>" v']
  show ?thesis by (simp add: render_def)
next
  case (TreemapOf t)
  with assms updateColors_calls [of "v\<lparr>treemap := TreemapOf (wt_render lib t)\<rparr>" v']
  show ?thesis by (simp add: render_def)
qed

lemma setTitle_getHue: "setTitle v = Inr v' \<Longrightarrow> getHue v' = getHue v"
  by (auto simp: setTitle_def Let_def split: option.splits)

lemma showResolved_calls: "\<exists>hs. getHue (snd (showResolved lib v m rs)) = calls (getHue v) hs"
proof -
  have same: "getHue (snd (showResolved lib v m rs)) = getHue v \<Longrightarrow> ?thesis"
  proof -
    assume "getHue (snd (showResolved lib v m rs)) = getHue v"
    then have "getHue (snd (showResolved lib v m rs)) = calls (getHue v) []" by simp
    then show ?thesis by blast
  qed
  show ?thesis
  proof (cases "createViewModesIn (elements v) rs m")
    case (Inl e)
    then show ?thesis by (intro same) (simp add: showResolved_def)
  next
    case (Inr panel)
    note p = this
    show ?thesis
    proof (cases "createTable (elements v) rs")
      case (Inl e)
      with p show ?thesis by (intro same) (simp add: showResolved_def Let_def)
    next
      case (Inr table)
      note t = this
      show ?thesis
      proof (cases "currentRootNode v")
        case None
        with p t show ?thesis by (intro same) (simp add: showResolved_def Let_def)
      next
        case (Some r)
        define v4 where "v4 = (setCurrentRootNode r (v\<lparr>viewModesPanel := panel, gridPanel := Some table\<rparr>))
            \<lparr>currentRootNode := Some (wt_sort lib (fst (dfs (setSize (metricOrBytes (partitionBy m))) r [] ())))\<rparr>"
        have g4: "getHue v4 = getHue v" by (simp add: v4_def setCurrentRootNode_def)
        show ?thesis
        proof (cases "setTitle v4")
          case (Inl e)
          with p t Some show ?thesis
            by (intro same) (simp add: showResolved_def Let_def v4_def [symmetric] g4)
        next
          case (Inr v5)
          note s5 = this
          have g5: "getHue v5 = getHue v" using setTitle_getHue [OF s5] g4 by simp
          show ?thesis
          proof (cases "render lib (v5\<lparr>treemap := TreemapOfCurrent\<rparr>)")
            case (Inl e)
            with p t Some s5 show ?thesis
              by (intro same) (simp add: showResolved_def Let_def v4_def [symmetric] g5)
          next
            case (Inr v7)
            from render_calls [OF Inr] obtain hs where "getHue v7 = calls (getHue v) hs"
              using g5 by auto
            moreover have "snd (showResolved lib v m rs) = v7"
              using p t Some s5 Inr by (simp add: showResolved_def Let_def v4_def [symmetric])
            ultimately show ?thesis by auto
          qed
        qed
      qed
    qed
  qed
qed

lemma showMode_calls: "\<exists>hs. getHue (snd (showMode lib v m)) = calls (getHue v) hs"
proof -
  have same: "getHue (snd (showMode lib v m)) = getHue v \<Longrightarrow> ?thesis"
  proof -
    assume "getHue (snd (showMode lib v m)) = getHue v"
    then have "getHue (snd (showMode lib v m)) = calls (getHue v) []" by simp
    then show ?thesis by blast
  qed
  have res: "showMode lib v m = showResolved lib v' m' rs \<Longrightarrow> getHue v' = getHue v \<Longrightarrow> ?thesis" for v' m' rs
    using showResolved_calls [of lib v' m' rs] by simp
  show ?thesis
  proof (cases "''.partition-selector'' \<in> set (elements v)")
    case False
    then show ?thesis by (intro same) (simp add: showMode_def Util_find_def Let_def)
  next
    case True
    note page = this
    show ?thesis
    proof (cases "selectorType (selector m) = js ''group''")
      case True
      show ?thesis
      proof (cases "map_of (treemapData v) (selectorValue (selector m))")
        case None
        with page True show ?thesis by (intro same) (simp add: showMode_unfold Let_def)
      next
        case (Some rs)
        let ?v' = "setCurrentRootNode (groupRoot (documentUrl v) (map wrapRootNode rs))
            (v\<lparr>mode := storedMode m, partitionSelectorValue := partitionBy (storedMode m)\<rparr>)"
        have "showMode lib v m = showResolved lib ?v' (storedMode m) rs"
          using page True Some by (simp add: showMode_unfold Let_def)
        moreover have "getHue ?v' = getHue v" by (simp add: setCurrentRootNode_def)
        ultimately show ?thesis by (rule res)
      qed
    next
      case False
      note ng = this
      show ?thesis
      proof (cases "selectorType (selector m) = js ''rootNodeId''")
        case True
        show ?thesis
        proof (cases "findRootNode v (selectorValue (selector m))")
          case None
          with page ng True show ?thesis by (intro same) (simp add: showMode_unfold Let_def)
        next
          case (Some r)
          let ?v' = "setCurrentRootNode (rootNode_node r)
              (v\<lparr>mode := storedMode m, partitionSelectorValue := partitionBy (storedMode m)\<rparr>)"
          have "showMode lib v m = showResolved lib ?v' (storedMode m) [r]"
            using page ng True Some by (simp add: showMode_unfold Let_def)
          moreover have "getHue ?v' = getHue v" by (simp add: setCurrentRootNode_def)
          ultimately show ?thesis by (rule res)
        qed
      next
        case False
        with page ng show ?thesis by (intro same) (simp add: showMode_unfold Let_def)
      qed
    qed
  qed
qed

lemma session_hues:
  "session lib v \<Longrightarrow> \<exists>hs. getHue v = calls (stableHasher COLOR_HUES) hs"
proof (induction rule: session.induct)
  case (constructed opts els v)
  then have "getHue v = calls (stableHasher COLOR_HUES) []"
    by (auto simp: TreemapViewer_def split: option.splits)
  then show ?case by blast
next
  case (shown v m)
  then obtain hs where "getHue v = calls (stableHasher COLOR_HUES) hs" by blast
  moreover obtain hs' where "getHue (snd (showMode lib v m)) = calls (getHue v) hs'"
    using showMode_calls by blast
  ultimately have "getHue (snd (showMode lib v m)) = calls (stableHasher COLOR_HUES) (hs @ hs')"
    by (simp add: calls_append)
  then show ?case by blast
next
  case (rendered v v')
  then obtain hs where "getHue v = calls (stableHasher COLOR_HUES) hs" by blast
  moreover obtain hs' where "getHue v' = calls (getHue v) hs'"
    using render_calls rendered.hyps(2) by blast
  ultimately have "getHue v' = calls (stableHasher COLOR_HUES) (hs @ hs')"
    by (simp add: calls_append)
  then show ?case by blast
next
  case (recolored v v')
  then obtain hs where "getHue v = calls (stableHasher COLOR_HUES) hs" by blast
  moreover obtain hs' where "getHue v' = calls (getHue v) hs'"
    using updateColors_calls recolored.hyps(2) by blast
  ultimately have "getHue v' = calls (stableHasher COLOR_HUES) (hs @ hs')"
    by (simp add: calls_append)
  then show ?case by blast
qed

lemma length_COLOR_HUES: "length COLOR_HUES = 17"
  by (simp add: COLOR_HUES_def)

lemma session_bound:
  assumes "session lib v"
  shows "distinct (map fst (assignedItems (getHue v))) \<and> length (assignedItems (getHue v)) \<le> 17"
proof -
  obtain hs where "getHue v = calls (stableHasher COLOR_HUES) hs"
    using session_hues [OF assms] by blast
  then obtain ps pos where "slots COLOR_HUES (getHue v) ps pos"
    using slots_reachable [of COLOR_HUES hs] by auto
  then show ?thesis by (simp add: slots_def length_COLOR_HUES [symmetric])
qed

lemma setTitle_relabel:
  "currentRootNode v = Some r \<Longrightarrow>
   setTitle v = Inr (v\<lparr>currentRootNode :=
         Some (relabel
           (titleOf (partitionBy (mode v))
              (metricValue (metricOrBytes (partitionBy (mode v))) (props r)))
           True r)\<rparr>)"
  by (simp add: setTitle_def Let_def titleVisit_dfs(1))

lemma show_group_colors:
  assumes "''.partition-selector'' \<in> set (elements v)"
    "''.panel--modals'' \<in> set (elements v)" "''.panel--datagrid'' \<in> set (elements v)"
    "selectorType (selector m) = js ''group''"
    "map_of (treemapData v) (selectorValue (selector m)) = Some rs"
  shows "currentRootNode (snd (showMode specLayout v m)) =
           Some (fst (dfs (colorVisit (storedMode m)) (groupTree v (storedMode m) rs) [] (getHue v))) \<and>
         getHue (snd (showMode specLayout v m)) =
           snd (dfs (colorVisit (storedMode m)) (groupTree v (storedMode m) rs) [] (getHue v)) \<and>
         mode (snd (showMode specLayout v m)) = storedMode m"
  using assms
  by (simp add: showMode_unfold showResolved_def createViewModesIn_def createTable_def
      Util_find_def setCurrentRootNode_def setTitle_relabel render_def updateColors_def
      specLayout_def groupTree_def Let_def case_prod_beta)

lemma many_source:
  "''.partition-selector'' \<in> set (elements manyViewer)"
  "''.panel--modals'' \<in> set (elements manyViewer)"
  "''.panel--datagrid'' \<in> set (elements manyViewer)"
  "selectorType (selector (optMode manyOptions)) = js ''group''"
  "map_of (treemapData manyViewer) (selectorValue (selector (optMode manyOptions))) =
     Some (map stampRootNode manyBundles)"
  "getHue manyViewer = stableHasher COLOR_HUES"
  "documentUrl manyViewer = js ''https://example.com/''"
  "storedMode (optMode manyOptions) = optMode manyOptions"
  by (simp_all add: manyViewer_def TreemapViewer_def manyOptions_def appPage_def storedMode_def)

lemma many_shown:
  "currentRootNode manyShown = Some (fst manyColored)" "getHue manyShown = snd manyColored"
  "mode manyShown = optMode manyOptions"
  using show_group_colors [OF many_source(1-5)]
  by (simp_all add: manyShown_def manyColored_def many_source)

lemma many_colored:
  "(case manyColored of (t, g) \<Rightarrow>
      map (\<lambda>n. originalId (props n)) (filter hasHue (case children t of None \<Rightarrow> [] | Some cs \<Rightarrow> cs)) = manyIds \<and>
      items g = [] \<and>
      map fst (assignedItems g) =
        [None, Some 97, Some 98, Some 99, Some 100, Some 101, Some 102, Some 103,
         Some 104, Some 105, Some 106, Some 107, Some 108, Some 109, Some 110, Some 195, Some 196])"
  by (simp add: manyColored_def groupTree_def hasHue_def many_source manyOptions_def
      manyBundles_def manyIds_def dataNode_def
      stampRootNode_def setOriginalId_def setIdHash_def setSize_def metricValue_def
      metricOrBytes_def idHashOf_def wrapRootNode_def groupRoot_def
      colorVisit_def assign_def splice1_def spliceStart_def
      remainder_def stableHasher_def hues hsl_def
      Let_def js_def)

lemma many_hued: "huedChildren manyShown = manyIds"
  using many_colored by (simp add: case_prod_beta huedChildren_def many_shown split: option.splits)

lemma many_exhausted:
  "items (getHue manyShown) = []"
  "map fst (assignedItems (getHue manyShown)) =
        [None, Some 97, Some 98, Some 99, Some 100, Some 101, Some 102, Some 103,
         Some 104, Some 105, Some 106, Some 107, Some 108, Some 109, Some 110, Some 195, Some 196]"
  using many_colored by (simp_all add: case_prod_beta many_shown)

lemma many_session: "session specLayout manyShown"
proof -
  have "TreemapViewer manyOptions appPage = Inr manyViewer"
    by (simp add: manyViewer_def TreemapViewer_def manyOptions_def)
  then have "session specLayout manyViewer" by (rule session.constructed)
  then show ?thesis unfolding manyShown_def by (rule session.shown)
qed

lemma colorVisit_null:
  assumes "highlightNodeIds m = None" "fst (assign g (idHash (props n))) = None"
  shows "colorVisit m g n p = (props n, g)"
proof -
  from assign_null [OF assms(2)] have "snd (assign g (idHash (props n))) = g" by simp
  with assms(2) have "assign g (idHash (props n)) = (None, g)" by (simp add: prod_eq_iff)
  with assms(1) show ?thesis by (simp add: colorVisit_def Let_def split: option.splits)
qed

lemma colorVisit_colored:
  assumes "highlightNodeIds m = None" "fst (colorVisit m g n p) \<noteq> props n"
  shows "idHash (props n) \<in> fst ` set (assignedItems (snd (colorVisit m g n p)))"
proof (cases "nodeDom (props n)")
  case None
  with assms show ?thesis by (simp add: colorVisit_def Let_def)
next
  case (Some st)
  show ?thesis
  proof (cases "fst (assign g (idHash (props n)))")
    case None
    with assms colorVisit_null [OF assms(1) None, of p] show ?thesis by simp
  next
    case (Some hue)
    then have memo: "map_of (assignedItems (snd (assign g (idHash (props n))))) (idHash (props n)) = Some hue"
      by (rule assign_memo)
    have "snd (colorVisit m g n p) = snd (assign g (idHash (props n)))"
      using assms(1) \<open>nodeDom (props n) = Some st\<close> Some
      by (auto simp: colorVisit_def Let_def split: prod.splits option.splits)
    moreover from memo have "(idHash (props n), hue) \<in> set (assignedItems (snd (assign g (idHash (props n)))))"
      by (rule map_of_SomeD)
    then have "idHash (props n) \<in> fst ` set (assignedItems (snd (assign g (idHash (props n)))))"
      by force
    ultimately show ?thesis by simp
  qed
qed

lemma updateColors_total:
  "currentRootNode v \<noteq> None \<Longrightarrow> \<exists>v'. updateColors v = Inr v'"
  by (auto simp: updateColors_def case_prod_beta)

text \<open>
  C10, as the code has it. In a viewer session, when no highlight set is active and the
  hue assignment returns \<open>null\<close> for a node's \<open>idHash\<close>, the callback of
  \<open>updateColors\<close> leaves the node and the assignment as they are, and
  \<open>updateColors\<close> raises no error on a current tree. The hashes that hold a hue are
  pairwise different and at most \<open>17\<close>, and a node that \<open>updateColors\<close> colours
  has its \<open>idHash\<close> among them. So at most \<open>17\<close> different \<open>idHash\<close> values (the
  absent \<open>idHash\<close> of a group's root being one) receive hues in a session.
\<close>

theorem updateColors_pool:
  assumes "session lib v"
  shows
    "(highlightNodeIds (mode v) = None \<and> fst (assign (getHue v) (idHash (props n))) = None \<longrightarrow>
        colorVisit (mode v) (getHue v) n p = (props n, getHue v)) \<and>
     (currentRootNode v \<noteq> None \<longrightarrow> (\<exists>v'. updateColors v = Inr v' \<and> session lib v')) \<and>
     distinct (map fst (assignedItems (getHue v))) \<and>
     length (assignedItems (getHue v)) \<le> 17 \<and>
     (highlightNodeIds (mode v) = None \<and> fst (colorVisit (mode v) (getHue v) n p) \<noteq> props n \<longrightarrow>
        idHash (props n) \<in> fst ` set (assignedItems (snd (colorVisit (mode v) (getHue v) n p))))"
proof -
  have a: "highlightNodeIds (mode v) = None \<and> fst (assign (getHue v) (idHash (props n))) = None \<longrightarrow>
        colorVisit (mode v) (getHue v) n p = (props n, getHue v)"
    using colorVisit_null by blast
  have b: "currentRootNode v \<noteq> None \<longrightarrow> (\<exists>v'. updateColors v = Inr v' \<and> session lib v')"
    using updateColors_total [of v] session.recolored [OF assms] by blast
  have c: "distinct (map fst (assignedItems (getHue v))) \<and> length (assignedItems (getHue v)) \<le> 17"
    using session_bound [OF assms] .
  have d: "highlightNodeIds (mode v) = None \<and> fst (colorVisit (mode v) (getHue v) n p) \<noteq> props n \<longrightarrow>
        idHash (props n) \<in> fst ` set (assignedItems (snd (colorVisit (mode v) (getHue v) n p)))"
    using colorVisit_colored by blast
  from a b c d show ?thesis by blast
qed

theorem updateColors_pool_witness:
  "colorVisit (mode manyShown) (getHue manyShown) probeNode [] =
     (props probeNode, getHue manyShown) \<and>
   (\<exists>v'. updateColors manyShown = Inr v') \<and>
   length (assignedItems (getHue manyShown)) = 17 \<and>
   idHash (props probeNode) \<in>
     fst ` set (assignedItems (snd (colorVisit (mode manyViewer) (getHue manyViewer) probeNode [])))"
proof -
  note t = updateColors_pool [OF many_session, of probeNode "[]"]
  have hl: "highlightNodeIds (mode manyShown) = None"
    by (simp add: many_shown manyOptions_def)
  have "Some 0 \<notin> set (map fst (assignedItems (getHue manyShown)))"
    by (simp only: many_exhausted) simp
  then have "map_of (assignedItems (getHue manyShown)) (idHash (props probeNode)) = None"
    by (simp add: map_of_eq_None_iff probeNode_def)
  then have nul: "fst (assign (getHue manyShown) (idHash (props probeNode))) = None"
    by (simp add: assign_exhausted many_exhausted)
  have cur: "currentRootNode manyShown \<noteq> None" by (simp add: many_shown)
  have len: "length (assignedItems (getHue manyShown)) = 17"
    using arg_cong [OF many_exhausted(2), of length] by simp
  from t hl nul have 1: "colorVisit (mode manyShown) (getHue manyShown) probeNode [] =
     (props probeNode, getHue manyShown)" by blast
  from t cur have 2: "\<exists>v'. updateColors manyShown = Inr v'" by blast
  have built: "TreemapViewer manyOptions appPage = Inr manyViewer"
    by (simp add: manyViewer_def TreemapViewer_def manyOptions_def)
  note t0 = updateColors_pool [OF session.constructed [OF built, of specLayout], of probeNode "[]"]
  have m0: "mode manyViewer = optMode manyOptions" "getHue manyViewer = stableHasher COLOR_HUES"
    by (simp_all add: manyViewer_def TreemapViewer_def manyOptions_def)
  have hl0: "highlightNodeIds (mode manyViewer) = None"
    by (simp add: m0 manyOptions_def)
  have ch: "fst (colorVisit (mode manyViewer) (getHue manyViewer) probeNode []) \<noteq> props probeNode"
    by (simp add: m0 manyOptions_def colorVisit_def probeNode_def assign_def splice1_def
        spliceStart_def remainder_def stableHasher_def hues hsl_def Let_def)
  from t0 hl0 ch have 3: "idHash (props probeNode) \<in>
     fst ` set (assignedItems (snd (colorVisit (mode manyViewer) (getHue manyViewer) probeNode [])))"
    by blast
  from 1 2 len 3 show ?thesis by blast
qed

text \<open>
  C10 as stated concludes that at most \<open>17\<close> bundles receive hues in a session. The
  eighteen bundles of \<open>manyBundles\<close> have sixteen different \<open>idHash\<close> values, and
  with the group's root they take the seventeen hues: after \<open>show\<close> of their group,
  every one of the eighteen has a hue.
\<close>

theorem many_bundles_counterexample:
  "session specLayout manyShown \<and>
   map rootId manyBundles = manyIds \<and>
   huedChildren manyShown = manyIds \<and>
   distinct manyIds \<and>
   length manyIds = 18"
proof -
  have a: "map rootId manyBundles = manyIds" by (simp add: manyBundles_def comp_def)
  have b: "distinct manyIds" by (simp add: manyIds_def js_def)
  have c: "length manyIds = 18" by (simp add: manyIds_def)
  from many_session a many_hued b c show ?thesis by blast
qed

end
